theory Spec2Isabelle
  imports Complex_Main
begin

section \<open>Data model of the draggable preview (WebsiteEditorWithPreview.jsx)\<close>

text \<open>
  The file holds two variants of the page; the component \<open>SmoothDraggable\<close> is the same
  text in both, and this theory follows the first one (lines 5 to 311) together with its
  host \<open>WebsiteEditorWithPreview\<close> (lines 639 to 759). JavaScript numbers are modelled as
  real numbers (no rounding); the special values NaN and the infinities are treated apart,
  in the section on malformed geometry.
\<close>

text \<open>\<open>dragDataRef.current\<close> (lines 21 to 30).\<close>

record DragData =
  isDragging :: bool
  startX :: real
  startY :: real
  startLeft :: real
  startTop :: real
  currentX :: real
  currentY :: real
  hasMoved :: bool

text \<open>A point \<open>{x, y}\<close> is a pair, first component x.\<close>

type_synonym Point = "real \<times> real"

datatype CornerName = TopLeft | TopRight | BottomLeft | BottomRight

text \<open>A corner \<open>{x, y, name}\<close> (lines 166 to 171).\<close>

record Corner =
  corner_x :: real
  corner_y :: real
  corner_name :: CornerName

text \<open>\<open>document.body.style.cursor\<close> and \<open>document.body.style.userSelect\<close>.\<close>

datatype CursorStyle = CursorUnset | CursorGrab | CursorGrabbing

datatype UserSelectStyle = SelectUnset | SelectNone

text \<open>
  What the component hands to its host through the callback props: \<open>onPositionChange\<close>,
  \<open>setIsDragging\<close>, \<open>onDragStart\<close>, \<open>onDragEnd\<close>, \<open>onSnapToCorner\<close>, \<open>onMouseDown\<close> and
  \<open>onMouseUp\<close> (with its arguments \<open>wasActuallyDragging\<close> and \<open>hasMoved\<close>). The host of this
  repository leaves \<open>onDragStart\<close> and \<open>onDragEnd\<close> unset; the entries \<open>DragStart\<close> and
  \<open>DragEnd\<close> record the call sites \<open>onDragStart?.()\<close> and \<open>onDragEnd?.()\<close>.
\<close>

datatype Output =
    PositionChange real real
  | SetIsDragging bool
  | DragStart
  | DragEnd
  | SnapToCorner Corner
  | MouseDownCb real real
  | MouseUpCb bool bool

text \<open>
  The state of the page: the gesture record of the component, the React state of the host
  (\<open>thumbnailPosition\<close>, \<open>isMinimized\<close>, \<open>isDragging\<close>, \<open>showLargePreview\<close>), the window
  size, the two ambient styles, and the callbacks made so far.
\<close>

record System =
  dragData :: DragData
  thumbnailPosition :: Point
  isMinimized :: bool
  isDraggingState :: bool
  showLargePreview :: bool
  innerWidth :: real
  innerHeight :: real
  cursor :: CursorStyle
  userSelect :: UserSelectStyle
  outputs :: "Output list"

text \<open>The prop \<open>disabled={showLargePreview}\<close> (line 758).\<close>

definition disabled :: "System \<Rightarrow> bool" where
  "disabled s = showLargePreview s"

text \<open>
  User and environment events. A press carries the button, whether the target is inside
  \<open>button, .control-button, .no-drag\<close>, the pointer position, and the left and top of
  \<open>elementRef.current.getBoundingClientRect()\<close> as read at the press. A touch event carries
  its list \<open>e.touches\<close>.
\<close>

datatype Event =
    MouseDown int bool real real real real
  | MouseMove real real
  | MouseUp
  | TouchStart "(real \<times> real) list" bool real real
  | TouchMove "(real \<times> real) list"
  | TouchEnd "(real \<times> real) list"
  | Resize real real
  | KeyCtrlM
  | ClickMinimize
  | ClickExpand
  | SetShowLargePreview bool

section \<open>Position updates\<close>

definition elementWidth :: real where
  "elementWidth = 320"

definition elementHeight :: "bool \<Rightarrow> real" where
  "elementHeight minimized = (if minimized then 60 else 180)"

text \<open>Lines 71 and 72: \<open>Math.max(0, Math.min(x, windowWidth - elementWidth))\<close>.\<close>

definition boundedX :: "real \<Rightarrow> real \<Rightarrow> real" where
  "boundedX x windowWidth = max 0 (min x (windowWidth - elementWidth))"

definition boundedY :: "bool \<Rightarrow> real \<Rightarrow> real \<Rightarrow> real" where
  "boundedY minimized y windowHeight = max 0 (min y (windowHeight - elementHeight minimized))"

text \<open>
  \<open>updatePosition\<close> (lines 59 to 82) for a mounted element. The argument \<open>smooth\<close> only
  selects the CSS transition of the element and is dropped; \<open>onPositionChange\<close> is the
  host's \<open>setThumbnailPosition\<close> (line 754).
\<close>

definition updatePosition :: "real \<Rightarrow> real \<Rightarrow> System \<Rightarrow> System" where
  "updatePosition x y s =
     (let bx = boundedX x (innerWidth s);
          by = boundedY (isMinimized s) y (innerHeight s)
      in s\<lparr>dragData := (dragData s)\<lparr>currentX := bx, currentY := by\<rparr>,
           thumbnailPosition := (bx, by),
           outputs := outputs s @ [PositionChange bx by]\<rparr>)"

section \<open>Press and move\<close>

text \<open>\<open>handleMouseDown\<close> (lines 84 to 113).\<close>

definition handleMouseDown :: "int \<Rightarrow> bool \<Rightarrow> real \<Rightarrow> real \<Rightarrow> real \<Rightarrow> real \<Rightarrow> System \<Rightarrow> System" where
  "handleMouseDown button onControl clientX clientY rectLeft rectTop s =
     (if button \<noteq> 0 \<or> disabled s then s
      else if onControl then s
      else s\<lparr>dragData :=
                \<lparr>isDragging = False, startX = clientX, startY = clientY,
                 startLeft = rectLeft, startTop = rectTop,
                 currentX = rectLeft, currentY = rectTop, hasMoved = False\<rparr>,
              cursor := CursorGrab,
              userSelect := SelectNone,
              outputs := outputs s @ [MouseDownCb clientX clientY]\<rparr>)"

text \<open>
  \<open>handleMouseMove\<close> (lines 115 to 139). \<open>!dragDataRef.current.startX\<close> is JavaScript
  truthiness: it holds when \<open>startX\<close> is 0. \<open>onDragStart?.()\<close> is recorded as \<open>DragStart\<close>.
\<close>

definition handleMouseMove :: "real \<Rightarrow> real \<Rightarrow> System \<Rightarrow> System" where
  "handleMouseMove clientX clientY s =
     (if startX (dragData s) = 0 \<or> disabled s then s
      else (let deltaX = clientX - startX (dragData s);
                deltaY = clientY - startY (dragData s);
                distance = sqrt (deltaX * deltaX + deltaY * deltaY);
                s1 = (if distance > 5 \<and> \<not> isDragging (dragData s)
                      then s\<lparr>dragData := (dragData s)\<lparr>isDragging := True, hasMoved := True\<rparr>,
                             isDraggingState := True,
                             cursor := CursorGrabbing,
                             outputs := outputs s @ [SetIsDragging True, DragStart]\<rparr>
                      else s)
            in if isDragging (dragData s1)
               then (let newX = startLeft (dragData s1) + deltaX;
                         newY = startTop (dragData s1) + deltaY
                     in updatePosition newX newY s1)
               else s1))"

section \<open>Release and corner snapping\<close>

definition snapDistance :: real where
  "snapDistance = 100"

definition margin :: real where
  "margin = 10"

text \<open>The array \<open>corners\<close> of lines 166 to 171.\<close>

definition corners :: "real \<Rightarrow> real \<Rightarrow> bool \<Rightarrow> Corner list" where
  "corners windowWidth windowHeight minimized =
     (let thumbnailWidth = 320; thumbnailHeight = (if minimized then 60 else 180)
      in [\<lparr>corner_x = margin, corner_y = margin, corner_name = TopLeft\<rparr>,
          \<lparr>corner_x = windowWidth - thumbnailWidth - margin, corner_y = margin,
           corner_name = TopRight\<rparr>,
          \<lparr>corner_x = margin, corner_y = windowHeight - thumbnailHeight - margin,
           corner_name = BottomLeft\<rparr>,
          \<lparr>corner_x = windowWidth - thumbnailWidth - margin,
           corner_y = windowHeight - thumbnailHeight - margin, corner_name = BottomRight\<rparr>])"

text \<open>Lines 178 to 181.\<close>

definition cornerDistance :: "real \<Rightarrow> real \<Rightarrow> Corner \<Rightarrow> real" where
  "cornerDistance cx cy corner = sqrt ((cx - corner_x corner)\<^sup>2 + (cy - corner_y corner)\<^sup>2)"

text \<open>
  The loop of lines 173 to 187 over the rest of the array. The pair is \<open>snapTarget\<close> (\<open>None\<close>
  for \<open>null\<close>) and \<open>minDistance\<close> (\<open>None\<close> for \<open>Infinity\<close>, below which every distance lies).
\<close>

fun snapLoop :: "real \<Rightarrow> real \<Rightarrow> Corner list \<Rightarrow> Corner option \<times> real option \<Rightarrow> Corner option \<times> real option" where
  "snapLoop cx cy [] acc = acc"
| "snapLoop cx cy (corner # rest) (snapTarget, minDistance) =
     (let distance = cornerDistance cx cy corner
      in if distance < snapDistance \<and> (case minDistance of None \<Rightarrow> True | Some m \<Rightarrow> distance < m)
         then snapLoop cx cy rest (Some corner, Some distance)
         else snapLoop cx cy rest (snapTarget, minDistance))"

definition findSnapTarget :: "real \<Rightarrow> real \<Rightarrow> Corner list \<Rightarrow> Corner option" where
  "findSnapTarget cx cy cs = fst (snapLoop cx cy cs (None, None))"

text \<open>The host's \<open>handleSnapToCorner\<close> (lines 663 to 665), recorded as a callback as well.\<close>

definition handleSnapToCorner :: "Corner \<Rightarrow> System \<Rightarrow> System" where
  "handleSnapToCorner corner s =
     s\<lparr>thumbnailPosition := (corner_x corner, corner_y corner),
       outputs := outputs s @ [SnapToCorner corner]\<rparr>"

text \<open>The prop \<open>snapToCorners={true}\<close> (line 453).\<close>

definition snapToCorners :: bool where
  "snapToCorners = True"

text \<open>
  \<open>handleMouseUp\<close> (lines 141 to 201); \<open>onSnapToCorner\<close> is set (line 454), \<open>onMouseUp\<close> is
  recorded as \<open>MouseUpCb\<close> and \<open>onDragEnd?.()\<close> as \<open>DragEnd\<close>.
\<close>

definition handleMouseUp :: "System \<Rightarrow> System" where
  "handleMouseUp s =
     (let wasActuallyDragging = isDragging (dragData s);
          moved = hasMoved (dragData s);
          s1 = s\<lparr>dragData := (dragData s)\<lparr>isDragging := False, hasMoved := False,
                                          startX := 0, startY := 0\<rparr>,
                 isDraggingState := False,
                 cursor := CursorUnset,
                 userSelect := SelectUnset,
                 outputs := outputs s @ [SetIsDragging False]\<rparr>;
          s2 = (if wasActuallyDragging \<and> snapToCorners \<and> \<not> disabled s1
                then (case findSnapTarget (currentX (dragData s1)) (currentY (dragData s1))
                             (corners (innerWidth s1) (innerHeight s1) (isMinimized s1)) of
                        None \<Rightarrow> s1
                      | Some snapTarget \<Rightarrow>
                          handleSnapToCorner snapTarget
                            (updatePosition (corner_x snapTarget) (corner_y snapTarget) s1))
                else s1);
          s3 = (if \<not> disabled s2
                then s2\<lparr>outputs := outputs s2 @ [MouseUpCb wasActuallyDragging moved]\<rparr>
                else s2)
      in s3\<lparr>outputs := outputs s3 @ [DragEnd]\<rparr>)"

section \<open>Touch\<close>

text \<open>\<open>handleTouchStart\<close> (lines 204 to 228); \<open>touch\<close> is \<open>e.touches[0]\<close>.\<close>

definition handleTouchStart :: "(real \<times> real) list \<Rightarrow> bool \<Rightarrow> real \<Rightarrow> real \<Rightarrow> System \<Rightarrow> System" where
  "handleTouchStart touches onControl rectLeft rectTop s =
     (if length touches \<noteq> 1 \<or> disabled s then s
      else if onControl then s
      else (case touches of
              [] \<Rightarrow> s
            | touch # _ \<Rightarrow>
                s\<lparr>dragData :=
                    \<lparr>isDragging = False, startX = fst touch, startY = snd touch,
                     startLeft = rectLeft, startTop = rectTop,
                     currentX = rectLeft, currentY = rectTop, hasMoved = False\<rparr>,
                  outputs := outputs s @ [MouseDownCb (fst touch) (snd touch)]\<rparr>))"

text \<open>
  \<open>handleTouchMove\<close> (lines 230 to 253): the same steps as \<open>handleMouseMove\<close> on the first
  touch, without the cursor line.
\<close>

definition handleTouchMove :: "(real \<times> real) list \<Rightarrow> System \<Rightarrow> System" where
  "handleTouchMove touches s =
     (if startX (dragData s) = 0 \<or> length touches \<noteq> 1 \<or> disabled s then s
      else (case touches of
              [] \<Rightarrow> s
            | touch # _ \<Rightarrow>
                (let deltaX = fst touch - startX (dragData s);
                     deltaY = snd touch - startY (dragData s);
                     distance = sqrt (deltaX * deltaX + deltaY * deltaY);
                     s1 = (if distance > 5 \<and> \<not> isDragging (dragData s)
                           then s\<lparr>dragData := (dragData s)\<lparr>isDragging := True, hasMoved := True\<rparr>,
                                  isDraggingState := True,
                                  outputs := outputs s @ [SetIsDragging True, DragStart]\<rparr>
                           else s)
                 in if isDragging (dragData s1)
                    then (let newX = startLeft (dragData s1) + deltaX;
                              newY = startTop (dragData s1) + deltaY
                          in updatePosition newX newY s1)
                    else s1)))"

text \<open>\<open>handleTouchEnd\<close> (lines 255 to 257): it does not look at \<open>e.touches\<close>.\<close>

definition handleTouchEnd :: "(real \<times> real) list \<Rightarrow> System \<Rightarrow> System" where
  "handleTouchEnd touches s = handleMouseUp s"

section \<open>The host: resize and size mode\<close>

text \<open>
  \<open>handleResize\<close> (lines 669 to 684), the listener of the window's resize event; it reads
  the window size live.
\<close>

definition handleResize :: "System \<Rightarrow> System" where
  "handleResize s =
     (let windowWidth = innerWidth s;
          windowHeight = innerHeight s;
          thumbnailWidth = 320;
          thumbnailHeight = (if isMinimized s then 60 else 180);
          maxX = windowWidth - thumbnailWidth;
          maxY = windowHeight - thumbnailHeight
      in if fst (thumbnailPosition s) > maxX \<or> snd (thumbnailPosition s) > maxY
         then (let newX = min (fst (thumbnailPosition s)) maxX;
                   newY = min (snd (thumbnailPosition s)) maxY
               in s\<lparr>thumbnailPosition := (max 0 newX, max 0 newY)\<rparr>)
         else s)"

section \<open>Effects\<close>

text \<open>The effect of lines 32 to 57, run when \<open>disabled\<close> or the position prop changes.\<close>

definition disabledEffect :: "System \<Rightarrow> System" where
  "disabledEffect s =
     (if disabled s
      then (let wasCurrentlyDragging = isDragging (dragData s);
                s1 = s\<lparr>dragData :=
                         \<lparr>isDragging = False, startX = 0, startY = 0, startLeft = 0, startTop = 0,
                          currentX = fst (thumbnailPosition s), currentY = snd (thumbnailPosition s),
                          hasMoved = False\<rparr>\<rparr>;
                s2 = (if wasCurrentlyDragging
                      then s1\<lparr>isDraggingState := False,
                              outputs := outputs s1 @ [SetIsDragging False]\<rparr>
                      else s1)
            in s2\<lparr>cursor := CursorUnset, userSelect := SelectUnset\<rparr>)
      else s)"

text \<open>
  The cleanup of the listener effect (lines 270 to 279), run when \<open>disabled\<close> or one of the
  handlers changes; the handlers change with \<open>disabled\<close> and \<open>isMinimized\<close>.
\<close>

definition listenersCleanup :: "System \<Rightarrow> System" where
  "listenersCleanup s = s\<lparr>cursor := CursorUnset, userSelect := SelectUnset\<rparr>"

text \<open>
  The effect of lines 283 to 290, run when the position prop or \<open>updatePosition\<close> (that is,
  \<open>isMinimized\<close>) changes.
\<close>

definition positionEffect :: "System \<Rightarrow> System" where
  "positionEffect s =
     (let positionChanged =
            (\<bar>currentX (dragData s) - fst (thumbnailPosition s)\<bar> > 1
             \<or> \<bar>currentY (dragData s) - snd (thumbnailPosition s)\<bar> > 1)
      in if positionChanged \<and> \<not> isDragging (dragData s)
         then updatePosition (fst (thumbnailPosition s)) (snd (thumbnailPosition s)) s
         else s)"

text \<open>The host's effect of lines 719 to 729, run when \<open>showLargePreview\<close> changes.\<close>

definition modalCloseEffect :: "System \<Rightarrow> System" where
  "modalCloseEffect s =
     (if \<not> showLargePreview s
      then s\<lparr>isDraggingState := False, cursor := CursorUnset, userSelect := SelectUnset\<rparr>
      else s)"

text \<open>
  One round of effects after a render: \<open>prev\<close> is the state of the previous render, and an
  effect runs when one of its dependencies differs from it. Cleanups come first, then the
  effects of the component in the order of the source, then the host's.
\<close>

definition effects :: "System \<Rightarrow> System \<Rightarrow> System" where
  "effects prev s =
     (let depDisabled = (showLargePreview s \<noteq> showLargePreview prev);
          depPosition = (thumbnailPosition s \<noteq> thumbnailPosition prev);
          depMinimized = (isMinimized s \<noteq> isMinimized prev);
          s1 = (if depDisabled \<or> depMinimized then listenersCleanup s else s);
          s2 = (if depDisabled \<or> depPosition then disabledEffect s1 else s1);
          s3 = (if depPosition \<or> depMinimized then positionEffect s2 else s2)
      in if depDisabled then modalCloseEffect s3 else s3)"

text \<open>
  An effect may set state and so cause one more render; the second round sees the first
  round's input as the previous render. Lemma \<open>effects_settled\<close> below shows that a third
  round would change nothing.
\<close>

definition render :: "System \<Rightarrow> System \<Rightarrow> System" where
  "render prev s = effects s (effects prev s)"

section \<open>The event loop\<close>

text \<open>
  The handler of each event. The document listeners (move and release, lines 260 to 280)
  are attached only while \<open>disabled\<close> is false; the press handlers are props of the element.
  The two buttons (lines 528 to 535 and 605 to 612) check \<open>disabled\<close>; Ctrl+M (line 708) does
  not.
\<close>

fun dispatch :: "Event \<Rightarrow> System \<Rightarrow> System" where
  "dispatch (MouseDown button onControl clientX clientY rectLeft rectTop) s =
     handleMouseDown button onControl clientX clientY rectLeft rectTop s"
| "dispatch (MouseMove clientX clientY) s =
     (if disabled s then s else handleMouseMove clientX clientY s)"
| "dispatch MouseUp s = (if disabled s then s else handleMouseUp s)"
| "dispatch (TouchStart touches onControl rectLeft rectTop) s =
     handleTouchStart touches onControl rectLeft rectTop s"
| "dispatch (TouchMove touches) s = (if disabled s then s else handleTouchMove touches s)"
| "dispatch (TouchEnd touches) s = (if disabled s then s else handleTouchEnd touches s)"
| "dispatch (Resize w h) s = handleResize (s\<lparr>innerWidth := w, innerHeight := h\<rparr>)"
| "dispatch KeyCtrlM s = s\<lparr>isMinimized := \<not> isMinimized s\<rparr>"
| "dispatch ClickMinimize s = (if disabled s then s else s\<lparr>isMinimized := True\<rparr>)"
| "dispatch ClickExpand s = (if disabled s then s else s\<lparr>isMinimized := False\<rparr>)"
| "dispatch (SetShowLargePreview b) s = s\<lparr>showLargePreview := b\<rparr>"

definition step :: "System \<Rightarrow> Event \<Rightarrow> System" where
  "step s ev = render s (dispatch ev s)"

definition run :: "System \<Rightarrow> Event list \<Rightarrow> System" where
  "run s evs = foldl step s evs"

text \<open>
  The state after mounting in a window of the given size (lines 21 to 30 and 640 to 645).
\<close>

definition initial :: "real \<Rightarrow> real \<Rightarrow> System" where
  "initial w h =
     \<lparr>dragData = \<lparr>isDragging = False, startX = 0, startY = 0, startLeft = 0, startTop = 0,
                  currentX = 20, currentY = 20, hasMoved = False\<rparr>,
      thumbnailPosition = (20, 20),
      isMinimized = False,
      isDraggingState = False,
      showLargePreview = False,
      innerWidth = w,
      innerHeight = h,
      cursor = CursorUnset,
      userSelect = SelectUnset,
      outputs = []\<rparr>"

section \<open>Malformed geometry: the special values of JavaScript numbers\<close>

text \<open>
  A JavaScript number is NaN, an infinity or a finite value (taken as a real number; the
  sign of zero is left out). \<open>jsSub\<close> is the operator \<open>-\<close>, \<open>jsMin\<close> is \<open>Math.min\<close> and \<open>jsMax\<close>
  is \<open>Math.max\<close> on two arguments: each gives NaN as soon as one argument is NaN.
\<close>

datatype JsNumber = NaN | NegInfinity | Finite real | PosInfinity

fun jsSub :: "JsNumber \<Rightarrow> JsNumber \<Rightarrow> JsNumber" where
  "jsSub NaN b = NaN"
| "jsSub a NaN = NaN"
| "jsSub (Finite a) (Finite b) = Finite (a - b)"
| "jsSub (Finite a) PosInfinity = NegInfinity"
| "jsSub (Finite a) NegInfinity = PosInfinity"
| "jsSub PosInfinity PosInfinity = NaN"
| "jsSub PosInfinity b = PosInfinity"
| "jsSub NegInfinity NegInfinity = NaN"
| "jsSub NegInfinity b = NegInfinity"

fun jsMin :: "JsNumber \<Rightarrow> JsNumber \<Rightarrow> JsNumber" where
  "jsMin NaN b = NaN"
| "jsMin a NaN = NaN"
| "jsMin NegInfinity b = NegInfinity"
| "jsMin a NegInfinity = NegInfinity"
| "jsMin PosInfinity b = b"
| "jsMin a PosInfinity = a"
| "jsMin (Finite a) (Finite b) = Finite (min a b)"

fun jsMax :: "JsNumber \<Rightarrow> JsNumber \<Rightarrow> JsNumber" where
  "jsMax NaN b = NaN"
| "jsMax a NaN = NaN"
| "jsMax PosInfinity b = PosInfinity"
| "jsMax a PosInfinity = PosInfinity"
| "jsMax NegInfinity b = b"
| "jsMax a NegInfinity = a"
| "jsMax (Finite a) (Finite b) = Finite (max a b)"

text \<open>The expressions of lines 71 and 72 on JavaScript numbers.\<close>

definition jsBoundedX :: "JsNumber \<Rightarrow> JsNumber \<Rightarrow> JsNumber" where
  "jsBoundedX x windowWidth = jsMax (Finite 0) (jsMin x (jsSub windowWidth (Finite 320)))"

definition jsBoundedY :: "bool \<Rightarrow> JsNumber \<Rightarrow> JsNumber \<Rightarrow> JsNumber" where
  "jsBoundedY minimized y windowHeight =
     jsMax (Finite 0) (jsMin y (jsSub windowHeight (Finite (if minimized then 60 else 180))))"

section \<open>Notions used to state the properties\<close>

text \<open>The Euclidean distance between two points, and the length of a path of points.\<close>

definition distanceBetween :: "Point \<Rightarrow> Point \<Rightarrow> real" where
  "distanceBetween p q =
     sqrt ((fst q - fst p) * (fst q - fst p) + (snd q - snd p) * (snd q - snd p))"

fun pathLength :: "Point \<Rightarrow> Point list \<Rightarrow> real" where
  "pathLength p [] = 0"
| "pathLength p (q # qs) = distanceBetween p q + pathLength q qs"

text \<open>
  The steps that \<open>handleMouseMove\<close> and \<open>handleTouchMove\<close> share after their guards, written
  once (\<open>withCursor\<close> tells the mouse handler, which also sets the cursor); lemmas
  \<open>handleMouseMove_moveTo\<close> and \<open>handleTouchMove_moveTo\<close> relate the handlers to it.
\<close>

definition startDragging :: "bool \<Rightarrow> System \<Rightarrow> System" where
  "startDragging withCursor s =
     s\<lparr>dragData := (dragData s)\<lparr>isDragging := True, hasMoved := True\<rparr>,
       isDraggingState := True,
       cursor := (if withCursor then CursorGrabbing else cursor s),
       outputs := outputs s @ [SetIsDragging True, DragStart]\<rparr>"

definition moveTo :: "bool \<Rightarrow> real \<Rightarrow> real \<Rightarrow> System \<Rightarrow> System" where
  "moveTo withCursor clientX clientY s =
     (let deltaX = clientX - startX (dragData s);
          deltaY = clientY - startY (dragData s);
          distance = sqrt (deltaX * deltaX + deltaY * deltaY);
          s1 = (if distance > 5 \<and> \<not> isDragging (dragData s)
                then startDragging withCursor s else s)
      in if isDragging (dragData s1)
         then updatePosition (startLeft (dragData s1) + deltaX) (startTop (dragData s1) + deltaY) s1
         else s1)"

text \<open>The move events of a pointer, and of a single finger, along a path.\<close>

definition mouseMoves :: "Point list \<Rightarrow> Event list" where
  "mouseMoves ps = map (\<lambda>p. MouseMove (fst p) (snd p)) ps"

definition touchMoves :: "Point list \<Rightarrow> Event list" where
  "touchMoves ps = map (\<lambda>p. TouchMove [p]) ps"

text \<open>
  The two flags of the gesture record agree, and so do the two flags of every release
  callback made so far.
\<close>

definition flagsAgree :: "System \<Rightarrow> bool" where
  "flagsAgree s = ((isDragging (dragData s) = hasMoved (dragData s))
     \<and> (\<forall>a b. MouseUpCb a b \<in> set (outputs s) \<longrightarrow> a = b))"

text \<open>
  The loop invariant of corner snapping: after the corners \<open>cs\<close>, either no corner was
  below the snap distance and the pair is still \<open>(null, Infinity)\<close>, or the pair holds the
  first corner of least distance, which is below the snap distance.
\<close>

definition snapInvariant :: "real \<Rightarrow> real \<Rightarrow> Corner list \<Rightarrow> Corner option \<times> real option \<Rightarrow> bool" where
  "snapInvariant cx cy cs acc =
     ((acc = (None, None) \<and> (\<forall>c \<in> set cs. \<not> cornerDistance cx cy c < snapDistance))
      \<or> (\<exists>i < length cs.
            acc = (Some (cs ! i), Some (cornerDistance cx cy (cs ! i)))
            \<and> cornerDistance cx cy (cs ! i) < snapDistance
            \<and> (\<forall>j < length cs. cornerDistance cx cy (cs ! i) \<le> cornerDistance cx cy (cs ! j))
            \<and> (\<forall>j < i. cornerDistance cx cy (cs ! i) < cornerDistance cx cy (cs ! j))))"

text \<open>
  The committed position lies in \<open>[0, W - w]\<close> and \<open>[0, H - h]\<close> for the window and the size
  mode of the state.
\<close>

definition inBounds :: "System \<Rightarrow> bool" where
  "inBounds s =
     (0 \<le> fst (thumbnailPosition s)
      \<and> fst (thumbnailPosition s) \<le> innerWidth s - elementWidth
      \<and> 0 \<le> snd (thumbnailPosition s)
      \<and> snd (thumbnailPosition s) \<le> innerHeight s - elementHeight (isMinimized s))"

text \<open>The window is at least 340 by 200.\<close>

definition roomy :: "System \<Rightarrow> bool" where
  "roomy s = (340 \<le> innerWidth s \<and> 200 \<le> innerHeight s)"

text \<open>
  Events under which the bounds are kept: a resize to a window of at least 340 by 200, and
  a switch from the minimized to the normal size only where the position fits the normal
  height. The other events are unrestricted.
\<close>

fun admissible :: "System \<Rightarrow> Event \<Rightarrow> bool" where
  "admissible s (Resize w h) = (340 \<le> w \<and> 200 \<le> h)"
| "admissible s KeyCtrlM = (isMinimized s \<longrightarrow> snd (thumbnailPosition s) \<le> innerHeight s - 180)"
| "admissible s ClickExpand = (isMinimized s \<longrightarrow> snd (thumbnailPosition s) \<le> innerHeight s - 180)"
| "admissible s ev = True"

fun admissibleRun :: "System \<Rightarrow> Event list \<Rightarrow> bool" where
  "admissibleRun s [] = True"
| "admissibleRun s (ev # evs) = (admissible s ev \<and> admissibleRun (step s ev) evs)"

text \<open>A press, by mouse or by touch.\<close>

fun isPress :: "Event \<Rightarrow> bool" where
  "isPress (MouseDown button onControl clientX clientY rectLeft rectTop) = True"
| "isPress (TouchStart touches onControl rectLeft rectTop) = True"
| "isPress ev = False"

text \<open>
  No gesture is armed or dragging, and the callbacks made since \<open>base\<close> hold no release
  with \<open>wasActuallyDragging\<close> true.
\<close>

definition idleSince :: "Output list \<Rightarrow> System \<Rightarrow> bool" where
  "idleSince base s =
     (startX (dragData s) = 0 \<and> \<not> isDragging (dragData s)
      \<and> (\<exists>new. outputs s = base @ new \<and> (\<forall>m. MouseUpCb True m \<notin> set new)))"

text \<open>
  The callbacks made since \<open>base\<close> are position updates and \<open>setIsDragging(false)\<close> only.
\<close>

fun isPositionChange :: "Output \<Rightarrow> bool" where
  "isPositionChange (PositionChange bx by) = True"
| "isPositionChange out = False"

definition quietGrowth :: "Output list \<Rightarrow> System \<Rightarrow> bool" where
  "quietGrowth base s =
     (\<exists>extra. outputs s = base @ extra
        \<and> (\<forall>out \<in> set extra. isPositionChange out \<or> out = SetIsDragging False))"

section \<open>Basic facts\<close>

lemma sqrt_gt_5_iff: "(5 < sqrt x) = (25 < x)"
proof -
  have "sqrt 25 = 5" using real_sqrt_abs [of 5] by simp
  then show ?thesis using real_sqrt_less_iff [of 25 x] by simp
qed

lemma sqrt_lt_100_iff: "(sqrt x < 100) = (x < 10000)"
proof -
  have "sqrt 10000 = 100" using real_sqrt_abs [of 100] by simp
  then show ?thesis using real_sqrt_less_iff [of x 10000] by simp
qed

lemma handleMouseMove_moveTo:
  "handleMouseMove clientX clientY s =
     (if startX (dragData s) = 0 \<or> disabled s then s else moveTo True clientX clientY s)"
  by (simp add: handleMouseMove_def moveTo_def startDragging_def Let_def)

lemma handleTouchMove_moveTo:
  "handleTouchMove touches s =
     (if startX (dragData s) = 0 \<or> length touches \<noteq> 1 \<or> disabled s then s
      else (case touches of [] \<Rightarrow> s | touch # _ \<Rightarrow> moveTo False (fst touch) (snd touch) s))"
  by (simp add: handleTouchMove_def moveTo_def startDragging_def Let_def split: list.splits)

lemmas handler_defs = handleMouseDown_def handleMouseMove_moveTo handleMouseUp_def snapToCorners_def moveTo_def
  startDragging_def updatePosition_def handleTouchStart_def handleTouchMove_moveTo handleTouchEnd_def
  handleResize_def handleSnapToCorner_def disabled_def

lemmas eval_defs = run_def step_def render_def effects_def handleMouseDown_def handleMouseMove_moveTo
  handleMouseUp_def snapToCorners_def moveTo_def startDragging_def updatePosition_def handleTouchStart_def
  handleTouchMove_moveTo handleTouchEnd_def handleResize_def handleSnapToCorner_def disabled_def
  disabledEffect_def listenersCleanup_def positionEffect_def modalCloseEffect_def initial_def
  boundedX_def boundedY_def elementWidth_def elementHeight_def corners_def findSnapTarget_def
  cornerDistance_def snapDistance_def margin_def Let_def sqrt_gt_5_iff sqrt_lt_100_iff

text \<open>A property kept by each effect is kept by a round of effects and by a render.\<close>

lemma effects_preserves:
  assumes "P s"
    and "\<And>t. P t \<Longrightarrow> P (listenersCleanup t)"
    and "\<And>t. P t \<Longrightarrow> P (disabledEffect t)"
    and "\<And>t. P t \<Longrightarrow> P (positionEffect t)"
    and "\<And>t. P t \<Longrightarrow> P (modalCloseEffect t)"
  shows "P (effects prev s)"
  using assms by (simp add: effects_def Let_def)

lemma render_preserves:
  assumes "P s"
    and "\<And>t. P t \<Longrightarrow> P (listenersCleanup t)"
    and "\<And>t. P t \<Longrightarrow> P (disabledEffect t)"
    and "\<And>t. P t \<Longrightarrow> P (positionEffect t)"
    and "\<And>t. P t \<Longrightarrow> P (modalCloseEffect t)"
  shows "P (render prev s)"
  unfolding render_def
  by (rule effects_preserves, rule effects_preserves) (use assms in blast)+

text \<open>No effect runs when no dependency has changed.\<close>

lemma effects_same:
  "showLargePreview s = showLargePreview prev \<Longrightarrow> thumbnailPosition s = thumbnailPosition prev
   \<Longrightarrow> isMinimized s = isMinimized prev \<Longrightarrow> effects prev s = s"
  by (simp add: effects_def)

lemma render_same:
  "showLargePreview s = showLargePreview prev \<Longrightarrow> thumbnailPosition s = thumbnailPosition prev
   \<Longrightarrow> isMinimized s = isMinimized prev \<Longrightarrow> render prev s = s"
  by (simp add: render_def effects_same)

lemma effects_frame:
  "showLargePreview (effects prev s) = showLargePreview s"
  "isMinimized (effects prev s) = isMinimized s"
  by (rule effects_preserves [where P = "\<lambda>t. showLargePreview t = showLargePreview s"],
      simp_all add: listenersCleanup_def disabledEffect_def positionEffect_def modalCloseEffect_def
        updatePosition_def Let_def)
     (rule effects_preserves [where P = "\<lambda>t. isMinimized t = isMinimized s"],
      simp_all add: listenersCleanup_def disabledEffect_def positionEffect_def modalCloseEffect_def
        updatePosition_def Let_def)

lemma effects_position_synced:
  "thumbnailPosition (effects prev s) = thumbnailPosition s
   \<or> (currentX (dragData (effects prev s)) = fst (thumbnailPosition (effects prev s))
      \<and> currentY (dragData (effects prev s)) = snd (thumbnailPosition (effects prev s)))"
proof (rule effects_preserves [where P = "\<lambda>t. thumbnailPosition t = thumbnailPosition s
   \<or> (currentX (dragData t) = fst (thumbnailPosition t)
      \<and> currentY (dragData t) = snd (thumbnailPosition t))"])
  fix t :: System
  assume t: "thumbnailPosition t = thumbnailPosition s
   \<or> (currentX (dragData t) = fst (thumbnailPosition t)
      \<and> currentY (dragData t) = snd (thumbnailPosition t))"
  then show "thumbnailPosition (listenersCleanup t) = thumbnailPosition s
   \<or> (currentX (dragData (listenersCleanup t)) = fst (thumbnailPosition (listenersCleanup t))
      \<and> currentY (dragData (listenersCleanup t)) = snd (thumbnailPosition (listenersCleanup t)))"
    by (simp add: listenersCleanup_def)
  from t show "thumbnailPosition (disabledEffect t) = thumbnailPosition s
   \<or> (currentX (dragData (disabledEffect t)) = fst (thumbnailPosition (disabledEffect t))
      \<and> currentY (dragData (disabledEffect t)) = snd (thumbnailPosition (disabledEffect t)))"
    by (simp add: disabledEffect_def Let_def)
  from t show "thumbnailPosition (positionEffect t) = thumbnailPosition s
   \<or> (currentX (dragData (positionEffect t)) = fst (thumbnailPosition (positionEffect t))
      \<and> currentY (dragData (positionEffect t)) = snd (thumbnailPosition (positionEffect t)))"
    by (simp add: positionEffect_def updatePosition_def Let_def)
  from t show "thumbnailPosition (modalCloseEffect t) = thumbnailPosition s
   \<or> (currentX (dragData (modalCloseEffect t)) = fst (thumbnailPosition (modalCloseEffect t))
      \<and> currentY (dragData (modalCloseEffect t)) = snd (thumbnailPosition (modalCloseEffect t)))"
    by (simp add: modalCloseEffect_def)
qed simp

lemma effects_of_synced:
  assumes "currentX (dragData t) = fst (thumbnailPosition t)"
    and "currentY (dragData t) = snd (thumbnailPosition t)"
    and "showLargePreview t = showLargePreview p" and "isMinimized t = isMinimized p"
  shows "thumbnailPosition (effects p t) = thumbnailPosition t"
  using assms
  by (simp add: effects_def disabledEffect_def positionEffect_def Let_def)

text \<open>After the two rounds of a render, one more round changes nothing.\<close>

lemma effects_settled: "effects (effects prev s) (render prev s) = render prev s"
proof -
  let ?s1 = "effects prev s" and ?s2 = "render prev s"
  have s2: "?s2 = effects s ?s1" by (simp add: render_def)
  have frame: "showLargePreview ?s2 = showLargePreview ?s1" "isMinimized ?s2 = isMinimized ?s1"
    by (simp_all add: s2 effects_frame)
  have "thumbnailPosition ?s2 = thumbnailPosition ?s1"
  proof (cases "thumbnailPosition ?s1 = thumbnailPosition s")
    case True
    then have "effects s ?s1 = ?s1" by (intro effects_same) (simp_all add: effects_frame)
    then show ?thesis by (simp add: s2)
  next
    case False
    then have "currentX (dragData ?s1) = fst (thumbnailPosition ?s1)"
      "currentY (dragData ?s1) = snd (thumbnailPosition ?s1)"
      using effects_position_synced [of prev s] by auto
    then show ?thesis
      unfolding s2 by (intro effects_of_synced) (simp_all add: effects_frame)
  qed
  then show ?thesis by (intro effects_same) (simp_all add: frame)
qed

text \<open>A position that the clamp leaves alone survives a render.\<close>

lemma render_fixed_position:
  assumes "boundedX (fst (thumbnailPosition s)) (innerWidth s) = fst (thumbnailPosition s)"
    and "boundedY (isMinimized s) (snd (thumbnailPosition s)) (innerHeight s)
           = snd (thumbnailPosition s)"
  shows "thumbnailPosition (render prev s) = thumbnailPosition s
       \<and> innerWidth (render prev s) = innerWidth s
       \<and> innerHeight (render prev s) = innerHeight s
       \<and> isMinimized (render prev s) = isMinimized s"
proof (rule render_preserves)
  show "thumbnailPosition s = thumbnailPosition s \<and> innerWidth s = innerWidth s
       \<and> innerHeight s = innerHeight s \<and> isMinimized s = isMinimized s" by simp
next
  fix t :: System
  assume t: "thumbnailPosition t = thumbnailPosition s \<and> innerWidth t = innerWidth s
       \<and> innerHeight t = innerHeight s \<and> isMinimized t = isMinimized s"
  then show "thumbnailPosition (listenersCleanup t) = thumbnailPosition s
       \<and> innerWidth (listenersCleanup t) = innerWidth s
       \<and> innerHeight (listenersCleanup t) = innerHeight s
       \<and> isMinimized (listenersCleanup t) = isMinimized s"
    by (simp add: listenersCleanup_def)
  from t show "thumbnailPosition (disabledEffect t) = thumbnailPosition s
       \<and> innerWidth (disabledEffect t) = innerWidth s
       \<and> innerHeight (disabledEffect t) = innerHeight s
       \<and> isMinimized (disabledEffect t) = isMinimized s"
    by (simp add: disabledEffect_def Let_def)
  from t assms show "thumbnailPosition (positionEffect t) = thumbnailPosition s
       \<and> innerWidth (positionEffect t) = innerWidth s
       \<and> innerHeight (positionEffect t) = innerHeight s
       \<and> isMinimized (positionEffect t) = isMinimized s"
    by (simp add: positionEffect_def updatePosition_def Let_def prod_eq_iff)
  from t show "thumbnailPosition (modalCloseEffect t) = thumbnailPosition s
       \<and> innerWidth (modalCloseEffect t) = innerWidth s
       \<and> innerHeight (modalCloseEffect t) = innerHeight s
       \<and> isMinimized (modalCloseEffect t) = isMinimized s"
    by (simp add: modalCloseEffect_def)
qed

lemma run_Nil: "run s [] = s"
  by (simp add: run_def)

lemma run_Cons: "run s (ev # evs) = run (step s ev) evs"
  by (simp add: run_def)

lemma run_append: "run s (evs @ evs') = run (run s evs) evs'"
  by (simp add: run_def)

section \<open>The position clamp\<close>

text \<open>
  C2. The bounded coordinate is \<open>max 0 (min x (W - w))\<close> on each axis, for both size modes;
  it is 0 when the window is smaller than the element; bounding twice is bounding once; and
  when the window is at least as large as the element the result lies in \<open>[0, W - w]\<close> and
  \<open>[0, H - h]\<close>.
\<close>

theorem clamp_contract:
  "boundedX x W = max 0 (min x (W - elementWidth))
   \<and> boundedY m y H = max 0 (min y (H - elementHeight m))
   \<and> (W < elementWidth \<longrightarrow> boundedX x W = 0)
   \<and> (H < elementHeight m \<longrightarrow> boundedY m y H = 0)
   \<and> boundedX (boundedX x W) W = boundedX x W
   \<and> boundedY m (boundedY m y H) H = boundedY m y H
   \<and> (elementWidth \<le> W \<longrightarrow> 0 \<le> boundedX x W \<and> boundedX x W \<le> W - elementWidth)
   \<and> (elementHeight m \<le> H \<longrightarrow> 0 \<le> boundedY m y H \<and> boundedY m y H \<le> H - elementHeight m)"
  by (auto simp: boundedX_def boundedY_def)

theorem clamp_contract_witness:
  "boundedX 500 300 = 0 \<and> boundedY True 500 50 = 0
   \<and> boundedX 900 1000 = 680 \<and> boundedY False 900 800 = 620
   \<and> (300::real) < elementWidth \<and> (50::real) < elementHeight True
   \<and> elementWidth \<le> (1000::real) \<and> elementHeight False \<le> (800::real)"
  using clamp_contract [of 500 300 True 500 50] clamp_contract [of 900 1000 False 900 800]
  by (simp add: elementWidth_def elementHeight_def boundedX_def boundedY_def)


section \<open>Click without drag\<close>

lemma distanceBetween_nonneg: "0 \<le> distanceBetween p q"
  by (simp add: distanceBetween_def)

lemma distanceBetween_triangle:
  "distanceBetween p r \<le> distanceBetween p q + distanceBetween q r"
  using real_sqrt_sum_squares_triangle_ineq
          [of "fst q - fst p" "fst r - fst q" "snd q - snd p" "snd r - snd q"]
  by (simp add: distanceBetween_def power2_eq_square)

lemma pathLength_nonneg: "0 \<le> pathLength p qs"
  by (induction qs arbitrary: p) (simp_all add: distanceBetween_nonneg)

lemma distance_le_pathLength: "q \<in> set qs \<Longrightarrow> distanceBetween p q \<le> pathLength p qs"
proof (induction qs arbitrary: p)
  case Nil
  then show ?case by simp
next
  case (Cons r rs)
  show ?case
  proof (cases "q = r")
    case True
    then show ?thesis using pathLength_nonneg [of r rs] by simp
  next
    case False
    with Cons.prems have "q \<in> set rs" by simp
    then have "distanceBetween r q \<le> pathLength r rs" by (rule Cons.IH)
    then show ?thesis using distanceBetween_triangle [of p q r] by simp
  qed
qed

lemma moveTo_below_threshold:
  "\<not> isDragging (dragData s)
   \<Longrightarrow> distanceBetween (startX (dragData s), startY (dragData s)) (x, y) \<le> 5
   \<Longrightarrow> moveTo c x y s = s"
  by (simp add: moveTo_def distanceBetween_def Let_def)

lemma step_move_below_threshold:
  assumes "\<not> isDragging (dragData s)"
    and "distanceBetween (startX (dragData s), startY (dragData s)) p \<le> 5"
  shows "step s (MouseMove (fst p) (snd p)) = s" and "step s (TouchMove [p]) = s"
  using assms moveTo_below_threshold [of s "fst p" "snd p"]
  by (simp_all add: step_def handleMouseMove_moveTo handleTouchMove_moveTo render_same)

lemma run_moves_below_threshold:
  assumes "\<not> isDragging (dragData s)"
    and "\<forall>p \<in> set ps. distanceBetween (startX (dragData s), startY (dragData s)) p \<le> 5"
  shows "run s (mouseMoves ps) = s" and "run s (touchMoves ps) = s"
  using assms
  by (induction ps) (simp_all add: mouseMoves_def touchMoves_def run_Nil run_Cons step_move_below_threshold)


lemma step_press:
  "\<not> disabled s \<Longrightarrow>
   step s (MouseDown 0 False x0 y0 rl rt) =
     s\<lparr>dragData := \<lparr>isDragging = False, startX = x0, startY = y0, startLeft = rl, startTop = rt,
                      currentX = rl, currentY = rt, hasMoved = False\<rparr>,
       cursor := CursorGrab, userSelect := SelectNone,
       outputs := outputs s @ [MouseDownCb x0 y0]\<rparr>"
  by (simp add: step_def handleMouseDown_def render_same)

lemma step_touch_press:
  "\<not> disabled s \<Longrightarrow>
   step s (TouchStart [(x0, y0)] False rl rt) =
     s\<lparr>dragData := \<lparr>isDragging = False, startX = x0, startY = y0, startLeft = rl, startTop = rt,
                      currentX = rl, currentY = rt, hasMoved = False\<rparr>,
       outputs := outputs s @ [MouseDownCb x0 y0]\<rparr>"
  by (simp add: step_def handleTouchStart_def render_same)

lemma handleMouseUp_not_dragging:
  "\<not> isDragging (dragData s) \<Longrightarrow> \<not> disabled s \<Longrightarrow>
   handleMouseUp s =
     s\<lparr>dragData := (dragData s)\<lparr>isDragging := False, hasMoved := False, startX := 0, startY := 0\<rparr>,
       isDraggingState := False, cursor := CursorUnset, userSelect := SelectUnset,
       outputs := outputs s @ [SetIsDragging False, MouseUpCb False (hasMoved (dragData s)), DragEnd]\<rparr>"
  by (simp add: handleMouseUp_def snapToCorners_def disabled_def Let_def)

lemma step_release_not_dragging:
  assumes "\<not> isDragging (dragData s)" and "\<not> disabled s"
  shows "outputs (step s MouseUp)
           = outputs s @ [SetIsDragging False, MouseUpCb False (hasMoved (dragData s)), DragEnd]"
    and "outputs (step s (TouchEnd ts))
           = outputs s @ [SetIsDragging False, MouseUpCb False (hasMoved (dragData s)), DragEnd]"
    and "thumbnailPosition (step s MouseUp) = thumbnailPosition s"
    and "thumbnailPosition (step s (TouchEnd ts)) = thumbnailPosition s"
  using assms
  by (simp_all add: step_def handleTouchEnd_def handleMouseUp_not_dragging render_same)

text \<open>
  C3. After an accepted press (primary button or a single finger, target not a control, not
  disabled), any moves along a path of total length at most 5 and a release make exactly
  the callbacks of a press and of a release without drag: no position update, and the
  release callback has \<open>wasActuallyDragging\<close> false. The position is unchanged.
\<close>

theorem click_without_drag:
  assumes "\<not> disabled s" and "pathLength (x0, y0) ps \<le> 5"
  shows "outputs (run s (MouseDown 0 False x0 y0 rl rt # mouseMoves ps @ [MouseUp]))
           = outputs s @ [MouseDownCb x0 y0, SetIsDragging False, MouseUpCb False False, DragEnd]
         \<and> outputs (run s (TouchStart [(x0, y0)] False rl rt # touchMoves ps @ [TouchEnd []]))
           = outputs s @ [MouseDownCb x0 y0, SetIsDragging False, MouseUpCb False False, DragEnd]
         \<and> thumbnailPosition (run s (MouseDown 0 False x0 y0 rl rt # mouseMoves ps @ [MouseUp]))
           = thumbnailPosition s
         \<and> thumbnailPosition (run s (TouchStart [(x0, y0)] False rl rt # touchMoves ps @ [TouchEnd []]))
           = thumbnailPosition s"
proof -
  have near: "\<forall>p \<in> set ps. distanceBetween (x0, y0) p \<le> 5"
    using distance_le_pathLength [of _ ps "(x0, y0)"] assms(2) by fastforce
  define m where "m = step s (MouseDown 0 False x0 y0 rl rt)"
  define t where "t = step s (TouchStart [(x0, y0)] False rl rt)"
  have m: "\<not> isDragging (dragData m)" "\<not> disabled m" "\<not> hasMoved (dragData m)"
    "startX (dragData m) = x0" "startY (dragData m) = y0"
    "outputs m = outputs s @ [MouseDownCb x0 y0]" "thumbnailPosition m = thumbnailPosition s"
    using assms(1) by (simp_all add: m_def step_press disabled_def)
  have t: "\<not> isDragging (dragData t)" "\<not> disabled t" "\<not> hasMoved (dragData t)"
    "startX (dragData t) = x0" "startY (dragData t) = y0"
    "outputs t = outputs s @ [MouseDownCb x0 y0]" "thumbnailPosition t = thumbnailPosition s"
    using assms(1) by (simp_all add: t_def step_touch_press disabled_def)
  have "run m (mouseMoves ps) = m"
    using m near by (intro run_moves_below_threshold) simp_all
  moreover have "run t (touchMoves ps) = t"
    using t near by (intro run_moves_below_threshold) simp_all
  ultimately show ?thesis
    using m t by (simp add: run_Cons run_append run_Nil m_def [symmetric] t_def [symmetric]
        step_release_not_dragging)
qed

theorem click_without_drag_witness:
  "\<not> disabled (initial 1000 800)
   \<and> pathLength (100, 100) [(103, 100), (103, 102)] \<le> 5
   \<and> outputs (run (initial 1000 800)
        (MouseDown 0 False 100 100 20 20 # mouseMoves [(103, 100), (103, 102)] @ [MouseUp]))
      = [MouseDownCb 100 100, SetIsDragging False, MouseUpCb False False, DragEnd]"
proof -
  have s3: "sqrt 9 = 3" using real_sqrt_abs [of 3] by simp
  have s2: "sqrt 4 = 2" using real_sqrt_abs [of 2] by simp
  have h1: "\<not> disabled (initial 1000 800)" by (simp add: disabled_def initial_def)
  have h2: "pathLength (100, 100) [(103, 100), (103, 102)] \<le> 5"
    by (simp add: distanceBetween_def s3 s2)
  from click_without_drag [OF h1 h2, of 20 20] h1 h2 show ?thesis
    by (simp add: initial_def)
qed

section \<open>The two flags of a release\<close>

lemma flagsAgree_updatePosition: "flagsAgree s \<Longrightarrow> flagsAgree (updatePosition x y s)"
  by (simp add: flagsAgree_def updatePosition_def Let_def)

lemma flagsAgree_render: "flagsAgree s \<Longrightarrow> flagsAgree (render prev s)"
proof (rule render_preserves)
  fix t assume "flagsAgree t"
  then show "flagsAgree (listenersCleanup t)" by (simp add: flagsAgree_def listenersCleanup_def)
  from \<open>flagsAgree t\<close> show "flagsAgree (disabledEffect t)"
    by (simp add: flagsAgree_def disabledEffect_def Let_def)
  from \<open>flagsAgree t\<close> show "flagsAgree (positionEffect t)"
    by (simp add: positionEffect_def Let_def flagsAgree_updatePosition)
  from \<open>flagsAgree t\<close> show "flagsAgree (modalCloseEffect t)"
    by (simp add: flagsAgree_def modalCloseEffect_def)
qed

lemma flagsAgree_dispatch: "flagsAgree s \<Longrightarrow> flagsAgree (dispatch ev s)"
  by (cases ev) (auto simp: flagsAgree_def handler_defs Let_def split: option.splits list.splits)

lemma flagsAgree_run: "flagsAgree s \<Longrightarrow> flagsAgree (run s evs)"
  by (induction evs arbitrary: s)
     (simp_all add: run_Nil run_Cons step_def flagsAgree_render flagsAgree_dispatch)

text \<open>
  C10. In every state reached from the mounted page the gesture record's flags \<open>isDragging\<close>
  and \<open>hasMoved\<close> are equal, and every release callback made so far has two equal flags.
\<close>

theorem release_flags_equal:
  "isDragging (dragData (run (initial w h) evs)) = hasMoved (dragData (run (initial w h) evs))
   \<and> (\<forall>a b. MouseUpCb a b \<in> set (outputs (run (initial w h) evs)) \<longrightarrow> a = b)"
proof -
  have "flagsAgree (initial w h)" by (simp add: flagsAgree_def initial_def)
  then have "flagsAgree (run (initial w h) evs)" by (rule flagsAgree_run)
  then show ?thesis by (simp add: flagsAgree_def)
qed

theorem release_flags_equal_witness:
  "MouseUpCb True True
     \<in> set (outputs (run (initial 1000 800)
                       [MouseDown 0 False 100 100 20 20, MouseMove 300 400, MouseUp]))
   \<and> isDragging (dragData (run (initial 1000 800)
                       [MouseDown 0 False 100 100 20 20, MouseMove 300 400]))
   \<and> hasMoved (dragData (run (initial 1000 800)
                       [MouseDown 0 False 100 100 20 20, MouseMove 300 400]))"
  using release_flags_equal [of 1000 800 "[MouseDown 0 False 100 100 20 20, MouseMove 300 400, MouseUp]"]
    release_flags_equal [of 1000 800 "[MouseDown 0 False 100 100 20 20, MouseMove 300 400]"]
  by (simp add: eval_defs)

section \<open>Corner snapping on release\<close>

lemma snapLoop_append:
  "snapLoop cx cy (cs @ [c]) acc = snapLoop cx cy [c] (snapLoop cx cy cs acc)"
  by (induction cx cy cs acc rule: snapLoop.induct) (simp_all add: Let_def)

lemma snapInvariant_step:
  assumes "snapInvariant cx cy cs acc"
  shows "snapInvariant cx cy (cs @ [c]) (snapLoop cx cy [c] acc)"
proof -
  let ?d = "cornerDistance cx cy"
  from assms consider
    (none) "acc = (None, None)" "\<forall>c \<in> set cs. \<not> ?d c < snapDistance"
  | (some) i where "i < length cs" "acc = (Some (cs ! i), Some (?d (cs ! i)))"
      "?d (cs ! i) < snapDistance"
      "\<forall>j < length cs. ?d (cs ! i) \<le> ?d (cs ! j)"
      "\<forall>j < i. ?d (cs ! i) < ?d (cs ! j)"
    unfolding snapInvariant_def by blast
  then show ?thesis
  proof cases
    case none
    show ?thesis
    proof (cases "?d c < snapDistance")
      case True
      have "\<forall>j < length cs. ?d c < ?d (cs ! j)"
        using none(2) True by (metis nth_mem not_less less_le_trans)
      then show ?thesis
        using none True
        unfolding snapInvariant_def
        by (intro disjI2 exI [of _ "length cs"]) (auto simp: Let_def nth_append less_Suc_eq)
    next
      case False
      then show ?thesis using none by (simp add: snapInvariant_def Let_def)
    qed
  next
    case some
    show ?thesis
    proof (cases "?d c < snapDistance \<and> ?d c < ?d (cs ! i)")
      case True
      have "\<forall>j < length cs. ?d c < ?d (cs ! j)"
        using some(4) True by (meson less_le_trans)
      then show ?thesis
        using some True
        unfolding snapInvariant_def
        by (intro disjI2 exI [of _ "length cs"]) (auto simp: Let_def nth_append less_Suc_eq)
    next
      case False
      then have "?d (cs ! i) \<le> ?d c" using some(3) by auto
      then show ?thesis
        using some False
        unfolding snapInvariant_def
        by (intro disjI2 exI [of _ i]) (auto simp: Let_def nth_append less_Suc_eq)
    qed
  qed
qed

lemma snapInvariant_loop: "snapInvariant cx cy cs (snapLoop cx cy cs (None, None))"
proof (induction cs rule: rev_induct)
  case Nil
  show ?case by (simp add: snapInvariant_def)
next
  case (snoc c cs)
  then show ?case by (simp add: snapLoop_append snapInvariant_step)
qed


lemma handleMouseUp_snap:
  assumes "isDragging (dragData s)" and "\<not> disabled s"
    and "findSnapTarget (currentX (dragData s)) (currentY (dragData s))
           (corners (innerWidth s) (innerHeight s) (isMinimized s)) = Some c"
  shows "thumbnailPosition (handleMouseUp s) = (corner_x c, corner_y c)"
    and "outputs (handleMouseUp s) = outputs s @
           [SetIsDragging False,
            PositionChange (boundedX (corner_x c) (innerWidth s))
                           (boundedY (isMinimized s) (corner_y c) (innerHeight s)),
            SnapToCorner c, MouseUpCb True (hasMoved (dragData s)), DragEnd]"
  using assms
  by (simp_all add: handleMouseUp_def snapToCorners_def disabled_def Let_def updatePosition_def handleSnapToCorner_def)

lemma handleMouseUp_no_snap:
  assumes "isDragging (dragData s)" and "\<not> disabled s"
    and "findSnapTarget (currentX (dragData s)) (currentY (dragData s))
           (corners (innerWidth s) (innerHeight s) (isMinimized s)) = None"
  shows "thumbnailPosition (handleMouseUp s) = thumbnailPosition s"
    and "outputs (handleMouseUp s) = outputs s @
           [SetIsDragging False, MouseUpCb True (hasMoved (dragData s)), DragEnd]"
  using assms
  by (simp_all add: handleMouseUp_def snapToCorners_def disabled_def Let_def)

lemma handleMouseUp_frame:
  "innerWidth (handleMouseUp s) = innerWidth s"
  "innerHeight (handleMouseUp s) = innerHeight s"
  "isMinimized (handleMouseUp s) = isMinimized s"
  "showLargePreview (handleMouseUp s) = showLargePreview s"
  by (simp_all add: handleMouseUp_def snapToCorners_def Let_def updatePosition_def handleSnapToCorner_def disabled_def
      split: option.splits)

lemma step_release_snap:
  assumes "isDragging (dragData s)" and "\<not> disabled s"
    and "findSnapTarget (currentX (dragData s)) (currentY (dragData s))
           (corners (innerWidth s) (innerHeight s) (isMinimized s)) = Some c"
    and "boundedX (corner_x c) (innerWidth s) = corner_x c"
    and "boundedY (isMinimized s) (corner_y c) (innerHeight s) = corner_y c"
  shows "thumbnailPosition (step s MouseUp) = (corner_x c, corner_y c)"
proof -
  have "thumbnailPosition (render s (handleMouseUp s)) = thumbnailPosition (handleMouseUp s)"
    using render_fixed_position [of "handleMouseUp s" s] assms(4,5)
    by (simp add: handleMouseUp_frame handleMouseUp_snap(1) [OF assms(1-3)])
  then show ?thesis
    using assms(2) by (simp add: step_def handleMouseUp_snap(1) [OF assms(1-3)])
qed

lemma step_release_no_snap:
  assumes "isDragging (dragData s)" and "\<not> disabled s"
    and "findSnapTarget (currentX (dragData s)) (currentY (dragData s))
           (corners (innerWidth s) (innerHeight s) (isMinimized s)) = None"
  shows "thumbnailPosition (step s MouseUp) = thumbnailPosition s"
proof -
  have "render s (handleMouseUp s) = handleMouseUp s"
    by (rule render_same)
       (simp_all add: handleMouseUp_frame handleMouseUp_no_snap(1) [OF assms])
  then show ?thesis
    using assms(2) by (simp add: step_def handleMouseUp_no_snap(1) [OF assms])
qed

text \<open>
  C5. On a release that ends a drag, with the corners in the order top-left, top-right,
  bottom-left, bottom-right: the snap target is \<open>null\<close> exactly when no corner is at a
  distance below 100 from the current position; otherwise it is the first corner of least
  distance, and that distance is below 100. With a target, \<open>handleMouseUp\<close> commits exactly
  the corner's coordinates and calls \<open>onSnapToCorner\<close> with it, and the position is still the
  corner after the render when the corner lies within the bounds; without a target the
  position stays as dragged.
\<close>

theorem corner_snap_on_release:
  assumes "isDragging (dragData s)" and "\<not> disabled s"
    and "cs = corners (innerWidth s) (innerHeight s) (isMinimized s)"
    and "target = findSnapTarget (currentX (dragData s)) (currentY (dragData s)) cs"
    and "d = cornerDistance (currentX (dragData s)) (currentY (dragData s))"
  shows "map corner_name cs = [TopLeft, TopRight, BottomLeft, BottomRight]
     \<and> ((target = None) = (\<forall>c \<in> set cs. \<not> d c < 100))
     \<and> (\<forall>c. target = Some c \<longrightarrow>
           (\<exists>i < length cs. c = cs ! i \<and> d c < 100
              \<and> (\<forall>j < length cs. d c \<le> d (cs ! j))
              \<and> (\<forall>j < i. d c < d (cs ! j)))
           \<and> thumbnailPosition (handleMouseUp s) = (corner_x c, corner_y c)
           \<and> outputs (handleMouseUp s) = outputs s @
                [SetIsDragging False,
                 PositionChange (boundedX (corner_x c) (innerWidth s))
                                (boundedY (isMinimized s) (corner_y c) (innerHeight s)),
                 SnapToCorner c, MouseUpCb True (hasMoved (dragData s)), DragEnd]
           \<and> (boundedX (corner_x c) (innerWidth s) = corner_x c
                \<and> boundedY (isMinimized s) (corner_y c) (innerHeight s) = corner_y c
                \<longrightarrow> thumbnailPosition (step s MouseUp) = (corner_x c, corner_y c)))
     \<and> (target = None \<longrightarrow>
           thumbnailPosition (handleMouseUp s) = thumbnailPosition s
           \<and> thumbnailPosition (step s MouseUp) = thumbnailPosition s
           \<and> outputs (handleMouseUp s) = outputs s @
                [SetIsDragging False, MouseUpCb True (hasMoved (dragData s)), DragEnd])"
proof -
  let ?cx = "currentX (dragData s)" and ?cy = "currentY (dragData s)"
  have inv: "snapInvariant ?cx ?cy cs (snapLoop ?cx ?cy cs (None, None))"
    by (rule snapInvariant_loop)
  have names: "map corner_name cs = [TopLeft, TopRight, BottomLeft, BottomRight]"
    by (simp add: assms(3) corners_def Let_def)
  have none: "(target = None) = (\<forall>c \<in> set cs. \<not> d c < 100)"
    using inv unfolding snapInvariant_def assms(4) assms(5) findSnapTarget_def snapDistance_def
    by (auto simp del: snapLoop.simps)
  have some: "\<exists>i < length cs. c = cs ! i \<and> d c < 100
              \<and> (\<forall>j < length cs. d c \<le> d (cs ! j)) \<and> (\<forall>j < i. d c < d (cs ! j))"
    if "target = Some c" for c
    using inv that unfolding snapInvariant_def assms(4) assms(5) findSnapTarget_def snapDistance_def
    by (auto simp del: snapLoop.simps)
  show ?thesis
    using names none some handleMouseUp_snap [OF assms(1,2)] handleMouseUp_no_snap [OF assms(1,2)]
      step_release_snap [OF assms(1,2)] step_release_no_snap [OF assms(1,2)]
    unfolding assms(3,4) [symmetric]
    by (simp add: assms(3,4))
qed

theorem corner_snap_on_release_witness:
  "isDragging (dragData (run (initial 1000 800) [MouseDown 0 False 100 100 20 20, MouseMove 730 110]))
   \<and> \<not> disabled (run (initial 1000 800) [MouseDown 0 False 100 100 20 20, MouseMove 730 110])
   \<and> thumbnailPosition (run (initial 1000 800) [MouseDown 0 False 100 100 20 20, MouseMove 730 110])
       = (650, 30)
   \<and> findSnapTarget 650 30 (corners 1000 800 False)
       = Some \<lparr>corner_x = 670, corner_y = 10, corner_name = TopRight\<rparr>
   \<and> thumbnailPosition (handleMouseUp
        (run (initial 1000 800) [MouseDown 0 False 100 100 20 20, MouseMove 730 110])) = (670, 10)
   \<and> thumbnailPosition (step
        (run (initial 1000 800) [MouseDown 0 False 100 100 20 20, MouseMove 730 110]) MouseUp)
       = (670, 10)
   \<and> isDragging (dragData (run (initial 1000 800) [MouseDown 0 False 100 100 20 20, MouseMove 480 380]))
   \<and> \<not> disabled (run (initial 1000 800) [MouseDown 0 False 100 100 20 20, MouseMove 480 380])
   \<and> findSnapTarget 400 300 (corners 1000 800 False) = None
   \<and> thumbnailPosition (step
        (run (initial 1000 800) [MouseDown 0 False 100 100 20 20, MouseMove 480 380]) MouseUp)
       = (400, 300)"
proof -
  let ?a = "run (initial 1000 800) [MouseDown 0 False 100 100 20 20, MouseMove 730 110]"
  let ?b = "run (initial 1000 800) [MouseDown 0 False 100 100 20 20, MouseMove 480 380]"
  have a: "isDragging (dragData ?a)" "\<not> disabled ?a" by (simp_all add: eval_defs)
  have b: "isDragging (dragData ?b)" "\<not> disabled ?b" by (simp_all add: eval_defs)
  have fa: "findSnapTarget 650 30 (corners 1000 800 False)
       = Some \<lparr>corner_x = 670, corner_y = 10, corner_name = TopRight\<rparr>"
    by (simp add: eval_defs)
  have fb: "findSnapTarget 400 300 (corners 1000 800 False) = None"
    by (simp add: eval_defs)
  have va: "currentX (dragData ?a) = 650" "currentY (dragData ?a) = 30" "innerWidth ?a = 1000"
    "innerHeight ?a = 800" "\<not> isMinimized ?a" "thumbnailPosition ?a = (650, 30)"
    by (simp_all add: eval_defs)
  have vb: "currentX (dragData ?b) = 400" "currentY (dragData ?b) = 300" "innerWidth ?b = 1000"
    "innerHeight ?b = 800" "\<not> isMinimized ?b" "thumbnailPosition ?b = (400, 300)"
    by (simp_all add: eval_defs)
  show ?thesis
    using corner_snap_on_release [OF a refl refl refl] corner_snap_on_release [OF b refl refl refl]
      a b
    by (simp add: va vb fa fb boundedX_def boundedY_def elementWidth_def elementHeight_def)
qed

section \<open>Disabling cancels the gesture\<close>

lemma idleSince_updatePosition: "idleSince base s \<Longrightarrow> idleSince base (updatePosition x y s)"
  by (auto simp: idleSince_def updatePosition_def Let_def)

lemma idleSince_render: "idleSince base s \<Longrightarrow> idleSince base (render prev s)"
proof (rule render_preserves)
  fix t assume t: "idleSince base t"
  then show "idleSince base (listenersCleanup t)" by (simp add: idleSince_def listenersCleanup_def)
  from t show "idleSince base (disabledEffect t)"
    by (simp add: idleSince_def disabledEffect_def Let_def)
  from t show "idleSince base (positionEffect t)"
    by (simp add: positionEffect_def Let_def idleSince_updatePosition)
  from t show "idleSince base (modalCloseEffect t)"
    by (simp add: idleSince_def modalCloseEffect_def)
qed

lemma idleSince_handleMouseUp:
  assumes "idleSince base s" and "\<not> disabled s"
  shows "idleSince base (handleMouseUp s)"
proof -
  from assms(1) obtain new where new: "outputs s = base @ new" "\<forall>m. MouseUpCb True m \<notin> set new"
    and idle: "startX (dragData s) = 0" "\<not> isDragging (dragData s)"
    by (auto simp: idleSince_def)
  let ?new = "new @ [SetIsDragging False, MouseUpCb False (hasMoved (dragData s)), DragEnd]"
  have "outputs (handleMouseUp s) = base @ ?new"
    using idle assms(2) new(1) by (simp add: handleMouseUp_not_dragging)
  moreover have "\<forall>m. MouseUpCb True m \<notin> set ?new"
    using new(2) by simp
  ultimately have "\<exists>new'. outputs (handleMouseUp s) = base @ new'
      \<and> (\<forall>m. MouseUpCb True m \<notin> set new')"
    by blast
  moreover have "startX (dragData (handleMouseUp s)) = 0"
    "\<not> isDragging (dragData (handleMouseUp s))"
    using idle assms(2) by (simp_all add: handleMouseUp_not_dragging)
  ultimately show ?thesis
    unfolding idleSince_def by blast
qed

lemma idleSince_dispatch:
  assumes "idleSince base s" and "\<not> isPress ev"
  shows "idleSince base (dispatch ev s)"
proof (cases ev)
  case (MouseMove x y)
  then show ?thesis using assms(1) by (simp add: handleMouseMove_moveTo idleSince_def)
next
  case MouseUp
  then show ?thesis using assms(1) by (simp add: idleSince_handleMouseUp)
next
  case (TouchMove ts)
  then show ?thesis using assms(1) by (simp add: handleTouchMove_moveTo idleSince_def)
next
  case (TouchEnd ts)
  then show ?thesis using assms(1) by (simp add: handleTouchEnd_def idleSince_handleMouseUp)
next
  case (Resize w h)
  then show ?thesis using assms(1) by (simp add: handleResize_def idleSince_def Let_def)
qed (use assms in \<open>simp_all add: idleSince_def\<close>)

lemma idleSince_run:
  "idleSince base s \<Longrightarrow> \<forall>e \<in> set evs. \<not> isPress e \<Longrightarrow> idleSince base (run s evs)"
  by (induction evs arbitrary: s)
     (simp_all add: run_Nil run_Cons step_def idleSince_render idleSince_dispatch)

lemma showLargePreview_render: "showLargePreview (render prev s) = showLargePreview s"
  by (rule render_preserves [where P = "\<lambda>t. showLargePreview t = showLargePreview s"])
     (simp_all add: listenersCleanup_def disabledEffect_def positionEffect_def modalCloseEffect_def
        updatePosition_def Let_def)

lemma step_disable:
  assumes "\<not> disabled s"
  shows "step s (SetShowLargePreview True) =
    s\<lparr>showLargePreview := True,
      dragData := \<lparr>isDragging = False, startX = 0, startY = 0, startLeft = 0, startTop = 0,
                   currentX = fst (thumbnailPosition s), currentY = snd (thumbnailPosition s),
                   hasMoved = False\<rparr>,
      isDraggingState := (if isDragging (dragData s) then False else isDraggingState s),
      cursor := CursorUnset, userSelect := SelectUnset,
      outputs := outputs s @ (if isDragging (dragData s) then [SetIsDragging False] else [])\<rparr>"
  using assms
  by (simp add: step_def render_def effects_def disabled_def listenersCleanup_def disabledEffect_def
      modalCloseEffect_def Let_def)

text \<open>
  C6. Setting \<open>disabled\<close> in any state that is not disabled (in particular while dragging)
  resets the gesture record to its idle value at the committed position; if the gesture
  was dragging, the host's dragging flag is set to false by \<open>setIsDragging(false)\<close>, which is
  the only callback made; the cursor and text selection styles are cleared; the position
  is kept. Until the next press no release callback with \<open>wasActuallyDragging\<close> true is
  made, whatever other events follow; and once \<open>disabled\<close> is cleared again, a press arms a
  new gesture.
\<close>

theorem disable_cancels_gesture:
  assumes "\<not> disabled s" and "s' = step s (SetShowLargePreview True)"
  shows "dragData s' = \<lparr>isDragging = False, startX = 0, startY = 0, startLeft = 0, startTop = 0,
                         currentX = fst (thumbnailPosition s), currentY = snd (thumbnailPosition s),
                         hasMoved = False\<rparr>
     \<and> (isDragging (dragData s) \<longrightarrow> \<not> isDraggingState s' \<and> outputs s' = outputs s @ [SetIsDragging False])
     \<and> (\<not> isDragging (dragData s) \<longrightarrow> outputs s' = outputs s)
     \<and> cursor s' = CursorUnset \<and> userSelect s' = SelectUnset
     \<and> thumbnailPosition s' = thumbnailPosition s
     \<and> (\<forall>evs. (\<forall>e \<in> set evs. \<not> isPress e) \<longrightarrow>
           (\<exists>new. outputs (run s' evs) = outputs s' @ new \<and> (\<forall>m. MouseUpCb True m \<notin> set new)))
     \<and> (\<forall>evs x y rl rt.
           step (step (run s' evs) (SetShowLargePreview False)) (MouseDown 0 False x y rl rt)
           = (step (run s' evs) (SetShowLargePreview False))
               \<lparr>dragData := \<lparr>isDragging = False, startX = x, startY = y, startLeft = rl,
                              startTop = rt, currentX = rl, currentY = rt, hasMoved = False\<rparr>,
                cursor := CursorGrab, userSelect := SelectNone,
                outputs := outputs (step (run s' evs) (SetShowLargePreview False)) @ [MouseDownCb x y]\<rparr>)"
proof -
  note s' = step_disable [OF assms(1), folded assms(2)]
  have idle: "idleSince (outputs s') s'"
    by (simp add: idleSince_def s')
  have later: "\<exists>new. outputs (run s' evs) = outputs s' @ new \<and> (\<forall>m. MouseUpCb True m \<notin> set new)"
    if "\<forall>e \<in> set evs. \<not> isPress e" for evs
    using idleSince_run [OF idle that] by (simp add: idleSince_def)
  have press: "step (step t (SetShowLargePreview False)) (MouseDown 0 False x y rl rt)
           = (step t (SetShowLargePreview False))
               \<lparr>dragData := \<lparr>isDragging = False, startX = x, startY = y, startLeft = rl,
                              startTop = rt, currentX = rl, currentY = rt, hasMoved = False\<rparr>,
                cursor := CursorGrab, userSelect := SelectNone,
                outputs := outputs (step t (SetShowLargePreview False)) @ [MouseDownCb x y]\<rparr>"
    for t x y rl rt
  proof (rule step_press)
    show "\<not> disabled (step t (SetShowLargePreview False))"
      by (simp add: disabled_def step_def showLargePreview_render)
  qed
  show ?thesis
    using later press by (simp add: s')
qed

theorem disable_cancels_gesture_witness:
  "isDragging (dragData (run (initial 1000 800) [MouseDown 0 False 100 100 20 20, MouseMove 230 230]))
   \<and> \<not> disabled (run (initial 1000 800) [MouseDown 0 False 100 100 20 20, MouseMove 230 230])
   \<and> thumbnailPosition (run (initial 1000 800)
        [MouseDown 0 False 100 100 20 20, MouseMove 230 230]) = (150, 150)
   \<and> dragData (run (initial 1000 800)
        [MouseDown 0 False 100 100 20 20, MouseMove 230 230, SetShowLargePreview True])
      = \<lparr>isDragging = False, startX = 0, startY = 0, startLeft = 0, startTop = 0,
         currentX = 150, currentY = 150, hasMoved = False\<rparr>
   \<and> outputs (run (initial 1000 800)
        [MouseDown 0 False 100 100 20 20, MouseMove 230 230, SetShowLargePreview True])
      = [MouseDownCb 100 100, SetIsDragging True, DragStart, PositionChange 150 150,
         SetIsDragging False]
   \<and> outputs (run (initial 1000 800)
        [MouseDown 0 False 100 100 20 20, MouseMove 230 230, SetShowLargePreview True,
         MouseMove 300 300, MouseUp, SetShowLargePreview False, MouseUp])
      = [MouseDownCb 100 100, SetIsDragging True, DragStart, PositionChange 150 150,
         SetIsDragging False, SetIsDragging False, MouseUpCb False False, DragEnd]
   \<and> \<not> isDragging (dragData (run (initial 1000 800) [MouseDown 0 False 100 100 20 20]))
   \<and> outputs (run (initial 1000 800) [MouseDown 0 False 100 100 20 20, SetShowLargePreview True])
      = [MouseDownCb 100 100]"
proof -
  let ?a = "run (initial 1000 800) [MouseDown 0 False 100 100 20 20, MouseMove 230 230]"
  let ?b = "run (initial 1000 800) [MouseDown 0 False 100 100 20 20]"
  let ?later = "[MouseMove 300 300, MouseUp, SetShowLargePreview False, MouseUp]"
  have a: "\<not> disabled ?a" by (simp add: eval_defs)
  have b: "\<not> disabled ?b" by (simp add: eval_defs)
  have later: "\<forall>e \<in> set ?later. \<not> isPress e" by simp
  have va: "isDragging (dragData ?a)" "thumbnailPosition ?a = (150, 150)"
    "outputs ?a = [MouseDownCb 100 100, SetIsDragging True, DragStart, PositionChange 150 150]"
    by (simp_all add: eval_defs)
  have vb: "\<not> isDragging (dragData ?b)" "outputs ?b = [MouseDownCb 100 100]"
    by (simp_all add: eval_defs)
  have ra: "run (initial 1000 800)
        [MouseDown 0 False 100 100 20 20, MouseMove 230 230, SetShowLargePreview True]
      = step ?a (SetShowLargePreview True)"
    and rb: "run (initial 1000 800) [MouseDown 0 False 100 100 20 20, SetShowLargePreview True]
      = step ?b (SetShowLargePreview True)"
    by (simp_all add: run_def)
  have full: "outputs (run (initial 1000 800)
        [MouseDown 0 False 100 100 20 20, MouseMove 230 230, SetShowLargePreview True,
         MouseMove 300 300, MouseUp, SetShowLargePreview False, MouseUp])
      = [MouseDownCb 100 100, SetIsDragging True, DragStart, PositionChange 150 150,
         SetIsDragging False, SetIsDragging False, MouseUpCb False False, DragEnd]"
    by (simp add: eval_defs)
  note ta = disable_cancels_gesture [OF a refl]
  note tb = disable_cancels_gesture [OF b refl]
  have "dragData (step ?a (SetShowLargePreview True))
      = \<lparr>isDragging = False, startX = 0, startY = 0, startLeft = 0, startTop = 0,
         currentX = 150, currentY = 150, hasMoved = False\<rparr>"
    using ta va(2) by simp
  moreover have "outputs (step ?a (SetShowLargePreview True))
      = [MouseDownCb 100 100, SetIsDragging True, DragStart, PositionChange 150 150,
         SetIsDragging False]"
    using ta va(1,3) by simp
  moreover have "outputs (step ?b (SetShowLargePreview True)) = [MouseDownCb 100 100]"
    using tb vb by simp
  ultimately show ?thesis
    using a va(1,2) vb(1) full unfolding ra rb by simp
qed

section \<open>Negative and non-finite geometry\<close>

text \<open>
  C7 (as amended). \<open>updatePosition\<close> has no case for malformed geometry and keeps no last
  known-good position: for every proposed position it commits and emits the clamped
  coordinates. These are never negative; a negative proposed coordinate or a negative
  window size gives 0; and on finite JavaScript numbers the result is finite.
\<close>

theorem update_position_clamps_any_input:
  "thumbnailPosition (updatePosition x y s)
     = (boundedX x (innerWidth s), boundedY (isMinimized s) y (innerHeight s))
   \<and> outputs (updatePosition x y s)
     = outputs s @ [PositionChange (boundedX x (innerWidth s))
                                   (boundedY (isMinimized s) y (innerHeight s))]
   \<and> currentX (dragData (updatePosition x y s)) = boundedX x (innerWidth s)
   \<and> currentY (dragData (updatePosition x y s)) = boundedY (isMinimized s) y (innerHeight s)
   \<and> 0 \<le> boundedX x W \<and> 0 \<le> boundedY m y H
   \<and> (x < 0 \<longrightarrow> boundedX x W = 0) \<and> (y < 0 \<longrightarrow> boundedY m y H = 0)
   \<and> (W < 0 \<longrightarrow> boundedX x W = 0) \<and> (H < 0 \<longrightarrow> boundedY m y H = 0)
   \<and> jsBoundedX (Finite x) (Finite W) = Finite (boundedX x W)
   \<and> jsBoundedY m (Finite y) (Finite H) = Finite (boundedY m y H)"
  by (simp add: updatePosition_def Let_def boundedX_def boundedY_def jsBoundedX_def jsBoundedY_def
      elementWidth_def elementHeight_def max_def min_def)

theorem update_position_clamps_any_input_witness:
  "(-180 :: real) < 0 \<and> (-5 :: real) < 0
   \<and> thumbnailPosition (updatePosition (-180) (-5) (initial 1000 800)) = (0, 0)
   \<and> (-100 :: real) < 0 \<and> (-50 :: real) < 0
   \<and> boundedX 30 (-100) = 0 \<and> boundedY False 30 (-50) = 0"
  using update_position_clamps_any_input [of "-180" "-5" "initial 1000 800" 1000 False 800]
    update_position_clamps_any_input [of 30 30 "initial 1000 800" "-100" False "-50"]
  by (simp add: initial_def boundedX_def boundedY_def elementWidth_def elementHeight_def updatePosition_def)

text \<open>
  C7 as stated fails. While dragging with the committed position (120, 20), a move that
  proposes x = -180 commits and emits (0, 20), not the last good position; and a NaN
  proposed coordinate or window size gives NaN.
\<close>

theorem invalid_geometry_counterexample:
  "thumbnailPosition (run (initial 1000 800)
      [MouseDown 0 False 100 100 20 20, MouseMove 200 100]) = (120, 20)
   \<and> thumbnailPosition (run (initial 1000 800)
      [MouseDown 0 False 100 100 20 20, MouseMove 200 100, MouseMove (-100) 100]) = (0, 20)
   \<and> last (outputs (run (initial 1000 800)
      [MouseDown 0 False 100 100 20 20, MouseMove 200 100, MouseMove (-100) 100]))
      = PositionChange 0 20
   \<and> jsBoundedX NaN (Finite 1000) = NaN
   \<and> jsBoundedX (Finite 50) NaN = NaN
   \<and> jsBoundedY False NaN (Finite 800) = NaN"
  by (simp add: eval_defs jsBoundedX_def jsBoundedY_def)


section \<open>Reflow on resize\<close>

lemma handleResize_position:
  "thumbnailPosition (handleResize s) =
     (if fst (thumbnailPosition s) > innerWidth s - 320
         \<or> snd (thumbnailPosition s) > innerHeight s - (if isMinimized s then 60 else 180)
      then (max 0 (min (fst (thumbnailPosition s)) (innerWidth s - 320)),
            max 0 (min (snd (thumbnailPosition s))
                       (innerHeight s - (if isMinimized s then 60 else 180))))
      else thumbnailPosition s)"
  "innerWidth (handleResize s) = innerWidth s"
  "innerHeight (handleResize s) = innerHeight s"
  "isMinimized (handleResize s) = isMinimized s"
  "showLargePreview (handleResize s) = showLargePreview s"
  by (simp_all add: handleResize_def Let_def)

lemma step_resize_exceeding:
  assumes "fst (thumbnailPosition s) > w - 320
         \<or> snd (thumbnailPosition s) > h - (if isMinimized s then 60 else 180)"
  shows "thumbnailPosition (step s (Resize w h))
           = (max 0 (min (fst (thumbnailPosition s)) (w - 320)),
              max 0 (min (snd (thumbnailPosition s)) (h - (if isMinimized s then 60 else 180))))"
    and "innerWidth (step s (Resize w h)) = w"
    and "innerHeight (step s (Resize w h)) = h"
    and "isMinimized (step s (Resize w h)) = isMinimized s"
proof -
  let ?s1 = "handleResize (s\<lparr>innerWidth := w, innerHeight := h\<rparr>)"
  have fixed: "boundedX (fst (thumbnailPosition ?s1)) (innerWidth ?s1) = fst (thumbnailPosition ?s1)"
    "boundedY (isMinimized ?s1) (snd (thumbnailPosition ?s1)) (innerHeight ?s1)
       = snd (thumbnailPosition ?s1)"
    using assms
    by (auto simp: handleResize_position boundedX_def boundedY_def elementWidth_def elementHeight_def)
  note r = render_fixed_position [OF fixed, of s]
  show "thumbnailPosition (step s (Resize w h))
           = (max 0 (min (fst (thumbnailPosition s)) (w - 320)),
              max 0 (min (snd (thumbnailPosition s)) (h - (if isMinimized s then 60 else 180))))"
    using r assms by (simp add: step_def handleResize_position)
  show "innerWidth (step s (Resize w h)) = w" using r by (simp add: step_def handleResize_position)
  show "innerHeight (step s (Resize w h)) = h" using r by (simp add: step_def handleResize_position)
  show "isMinimized (step s (Resize w h)) = isMinimized s"
    using r by (simp add: step_def handleResize_position)
qed

lemma step_resize_within:
  assumes "\<not> (fst (thumbnailPosition s) > w - 320
         \<or> snd (thumbnailPosition s) > h - (if isMinimized s then 60 else 180))"
  shows "thumbnailPosition (step s (Resize w h)) = thumbnailPosition s"
proof -
  have "handleResize (s\<lparr>innerWidth := w, innerHeight := h\<rparr>) = s\<lparr>innerWidth := w, innerHeight := h\<rparr>"
    using assms by (simp add: handleResize_def Let_def)
  then show ?thesis by (simp add: step_def render_same)
qed

lemma step_toggle_in_sync:
  assumes "\<bar>currentX (dragData s) - fst (thumbnailPosition s)\<bar> \<le> 1"
    and "\<bar>currentY (dragData s) - snd (thumbnailPosition s)\<bar> \<le> 1"
    and "ev = KeyCtrlM \<or> ev = ClickMinimize \<or> ev = ClickExpand"
  shows "thumbnailPosition (step s ev) = thumbnailPosition s"
proof -
  have eff: "thumbnailPosition (effects s (s\<lparr>isMinimized := b\<rparr>)) = thumbnailPosition s"
    "isMinimized (effects s (s\<lparr>isMinimized := b\<rparr>)) = b"
    "showLargePreview (effects s (s\<lparr>isMinimized := b\<rparr>)) = showLargePreview s" for b
    using assms(1,2) by (simp_all add: effects_def listenersCleanup_def positionEffect_def Let_def)
  have "thumbnailPosition (render s (s\<lparr>isMinimized := b\<rparr>)) = thumbnailPosition s" for b
    unfolding render_def by (subst effects_same) (simp_all add: eff)
  moreover have "thumbnailPosition (render s s) = thumbnailPosition s"
    by (simp add: render_same)
  ultimately show ?thesis
    using assms(3) by (auto simp: step_def)
qed

text \<open>
  C8 (as amended). On a resize event, if the committed position exceeds the new maximum
  on either axis, the position becomes \<open>(max 0 (min x maxX), max 0 (min y maxY))\<close> with no
  gesture needed, and lies within the bounds when the window is at least as large as the
  element; otherwise it is unchanged. A change of the size mode (Ctrl+M or the two
  buttons) leaves the committed position unchanged whenever the gesture record's current
  position is within 1 of it.
\<close>

theorem reflow_on_resize:
  assumes "maxX = w - 320" and "maxY = h - (if isMinimized s then 60 else 180)"
  shows "((fst (thumbnailPosition s) > maxX \<or> snd (thumbnailPosition s) > maxY) \<longrightarrow>
            thumbnailPosition (step s (Resize w h))
              = (max 0 (min (fst (thumbnailPosition s)) maxX),
                 max 0 (min (snd (thumbnailPosition s)) maxY))
            \<and> (0 \<le> maxX \<and> 0 \<le> maxY \<longrightarrow> inBounds (step s (Resize w h))))
       \<and> (\<not> (fst (thumbnailPosition s) > maxX \<or> snd (thumbnailPosition s) > maxY) \<longrightarrow>
            thumbnailPosition (step s (Resize w h)) = thumbnailPosition s)
       \<and> (\<bar>currentX (dragData s) - fst (thumbnailPosition s)\<bar> \<le> 1
            \<and> \<bar>currentY (dragData s) - snd (thumbnailPosition s)\<bar> \<le> 1 \<longrightarrow>
            thumbnailPosition (step s KeyCtrlM) = thumbnailPosition s
            \<and> thumbnailPosition (step s ClickMinimize) = thumbnailPosition s
            \<and> thumbnailPosition (step s ClickExpand) = thumbnailPosition s)"
proof -
  have a: "thumbnailPosition (step s (Resize w h))
              = (max 0 (min (fst (thumbnailPosition s)) maxX),
                 max 0 (min (snd (thumbnailPosition s)) maxY))
            \<and> (0 \<le> maxX \<and> 0 \<le> maxY \<longrightarrow> inBounds (step s (Resize w h)))"
    if "fst (thumbnailPosition s) > maxX \<or> snd (thumbnailPosition s) > maxY"
    using that step_resize_exceeding [where s = s and w = w and h = h] unfolding assms
    by (auto simp: inBounds_def elementWidth_def elementHeight_def)
  have b: "thumbnailPosition (step s (Resize w h)) = thumbnailPosition s"
    if "\<not> (fst (thumbnailPosition s) > maxX \<or> snd (thumbnailPosition s) > maxY)"
    using that step_resize_within [where s = s and w = w and h = h] unfolding assms by simp
  show ?thesis
    using a b step_toggle_in_sync [where s = s] by blast
qed

theorem reflow_on_resize_witness:
  "thumbnailPosition (run (initial 1000 800)
        [MouseDown 0 False 100 100 20 20, MouseMove 900 700, MouseUp]) = (670, 610)
   \<and> ((670::real) > 800 - 320 \<or> (610::real) > 600 - 180)
   \<and> thumbnailPosition (run (initial 1000 800)
        [MouseDown 0 False 100 100 20 20, MouseMove 900 700, MouseUp, Resize 800 600]) = (480, 420)
   \<and> inBounds (run (initial 1000 800)
        [MouseDown 0 False 100 100 20 20, MouseMove 900 700, MouseUp, Resize 800 600])
   \<and> \<not> ((670::real) > 1200 - 320 \<or> (610::real) > 900 - 180)
   \<and> thumbnailPosition (run (initial 1000 800)
        [MouseDown 0 False 100 100 20 20, MouseMove 900 700, MouseUp, Resize 1200 900]) = (670, 610)
   \<and> currentX (dragData (run (initial 1000 800)
        [MouseDown 0 False 100 100 20 20, MouseMove 900 700, MouseUp])) = 670
   \<and> currentY (dragData (run (initial 1000 800)
        [MouseDown 0 False 100 100 20 20, MouseMove 900 700, MouseUp])) = 610
   \<and> thumbnailPosition (run (initial 1000 800)
        [MouseDown 0 False 100 100 20 20, MouseMove 900 700, MouseUp, KeyCtrlM]) = (670, 610)"
proof -
  let ?s = "run (initial 1000 800) [MouseDown 0 False 100 100 20 20, MouseMove 900 700, MouseUp]"
  have s: "thumbnailPosition ?s = (670, 610)" "currentX (dragData ?s) = 670"
    "currentY (dragData ?s) = 610" "\<not> isMinimized ?s"
    by (simp_all add: eval_defs)
  have r: "run (initial 1000 800)
        [MouseDown 0 False 100 100 20 20, MouseMove 900 700, MouseUp, ev] = step ?s ev" for ev
    by (simp add: run_def)
  show ?thesis
    using reflow_on_resize [where s = "?s" and w = 800 and h = 600, OF refl refl]
      reflow_on_resize [where s = "?s" and w = 1200 and h = 900, OF refl refl]
    unfolding r by (simp add: s)
qed

text \<open>
  C8 as stated fails for the size mode. In a window of 1000 by 800: minimize, drag to the
  bottom-left corner (snap to (10, 730), within the bounds of the minimized size), then
  expand. The position is still (10, 730), beyond the maximum 620 of the normal size.
\<close>

theorem reflow_on_toggle_counterexample:
  "inBounds (run (initial 1000 800)
      [MouseDown 0 True 330 30 20 20, MouseUp, ClickMinimize,
       MouseDown 0 False 100 50 20 20, MouseMove 100 790, MouseUp,
       MouseDown 0 True 300 750 10 730, MouseUp])
   \<and> thumbnailPosition (run (initial 1000 800)
      [MouseDown 0 True 330 30 20 20, MouseUp, ClickMinimize,
       MouseDown 0 False 100 50 20 20, MouseMove 100 790, MouseUp,
       MouseDown 0 True 300 750 10 730, MouseUp, ClickExpand]) = (10, 730)
   \<and> \<not> isMinimized (run (initial 1000 800)
      [MouseDown 0 True 330 30 20 20, MouseUp, ClickMinimize,
       MouseDown 0 False 100 50 20 20, MouseMove 100 790, MouseUp,
       MouseDown 0 True 300 750 10 730, MouseUp, ClickExpand])
   \<and> \<not> inBounds (run (initial 1000 800)
      [MouseDown 0 True 330 30 20 20, MouseUp, ClickMinimize,
       MouseDown 0 False 100 50 20 20, MouseMove 100 790, MouseUp,
       MouseDown 0 True 300 750 10 730, MouseUp, ClickExpand])"
  by (simp add: eval_defs inBounds_def)

section \<open>The committed position and the bounds\<close>

lemma inBounds_updatePosition: "roomy s \<Longrightarrow> inBounds (updatePosition x y s) \<and> roomy (updatePosition x y s)"
  by (auto simp: inBounds_def roomy_def updatePosition_def Let_def boundedX_def boundedY_def
      elementWidth_def elementHeight_def)

lemma inBounds_moveTo:
  "inBounds s \<and> roomy s \<Longrightarrow> inBounds (moveTo c x y s) \<and> roomy (moveTo c x y s)"
proof -
  assume a: "inBounds s \<and> roomy s"
  have "inBounds (startDragging c s) \<and> roomy (startDragging c s)"
    using a by (simp add: inBounds_def roomy_def startDragging_def)
  then show ?thesis
    using a inBounds_updatePosition by (simp add: moveTo_def Let_def)
qed

lemma inBounds_render:
  "inBounds s \<and> roomy s \<Longrightarrow> inBounds (render prev s) \<and> roomy (render prev s)"
proof (rule render_preserves)
  fix t assume t: "inBounds t \<and> roomy t"
  then show "inBounds (listenersCleanup t) \<and> roomy (listenersCleanup t)"
    by (simp add: inBounds_def roomy_def listenersCleanup_def)
  from t show "inBounds (disabledEffect t) \<and> roomy (disabledEffect t)"
    by (simp add: inBounds_def roomy_def disabledEffect_def Let_def)
  from t show "inBounds (positionEffect t) \<and> roomy (positionEffect t)"
    by (simp add: positionEffect_def Let_def inBounds_updatePosition)
  from t show "inBounds (modalCloseEffect t) \<and> roomy (modalCloseEffect t)"
    by (simp add: inBounds_def roomy_def modalCloseEffect_def)
qed

lemma findSnapTarget_member: "findSnapTarget cx cy cs = Some c \<Longrightarrow> c \<in> set cs"
  using snapInvariant_loop [of cx cy cs]
  by (auto simp: snapInvariant_def findSnapTarget_def simp del: snapLoop.simps)

lemma corner_inBounds:
  assumes "340 \<le> w" and "200 \<le> h" and "c \<in> set (corners w h m)"
  shows "0 \<le> corner_x c \<and> corner_x c \<le> w - elementWidth
       \<and> 0 \<le> corner_y c \<and> corner_y c \<le> h - elementHeight m"
  using assms by (auto simp: corners_def Let_def margin_def elementWidth_def elementHeight_def)

lemma inBounds_handleMouseUp:
  assumes "inBounds s \<and> roomy s"
  shows "inBounds (handleMouseUp s) \<and> roomy (handleMouseUp s)"
proof (cases "isDragging (dragData s) \<and> \<not> disabled s")
  case False
  then show ?thesis
    using assms by (auto simp: handleMouseUp_def snapToCorners_def Let_def disabled_def inBounds_def roomy_def)
next
  case True
  show ?thesis
  proof (cases "findSnapTarget (currentX (dragData s)) (currentY (dragData s))
           (corners (innerWidth s) (innerHeight s) (isMinimized s))")
    case None
    then show ?thesis
      using assms True by (simp add: handleMouseUp_def snapToCorners_def Let_def disabled_def inBounds_def roomy_def)
  next
    case (Some c)
    then have "c \<in> set (corners (innerWidth s) (innerHeight s) (isMinimized s))"
      by (rule findSnapTarget_member)
    then have "0 \<le> corner_x c \<and> corner_x c \<le> innerWidth s - elementWidth
       \<and> 0 \<le> corner_y c \<and> corner_y c \<le> innerHeight s - elementHeight (isMinimized s)"
      using assms by (intro corner_inBounds) (simp_all add: roomy_def)
    then show ?thesis
      using assms True Some
      by (simp add: handleMouseUp_def snapToCorners_def Let_def disabled_def inBounds_def roomy_def
          updatePosition_def handleSnapToCorner_def)
  qed
qed

lemma inBounds_handleResize:
  assumes "340 \<le> w" and "200 \<le> h" and "0 \<le> fst (thumbnailPosition s)"
    and "0 \<le> snd (thumbnailPosition s)"
  shows "inBounds (handleResize (s\<lparr>innerWidth := w, innerHeight := h\<rparr>))
       \<and> roomy (handleResize (s\<lparr>innerWidth := w, innerHeight := h\<rparr>))"
  using assms
  by (auto simp: handleResize_def Let_def inBounds_def roomy_def elementWidth_def elementHeight_def)

lemma inBounds_dispatch:
  assumes "inBounds s \<and> roomy s" and "admissible s ev"
  shows "inBounds (dispatch ev s) \<and> roomy (dispatch ev s)"
proof (cases ev)
  case (MouseDown b c x y rl rt)
  then show ?thesis using assms(1) by (simp add: handleMouseDown_def inBounds_def roomy_def)
next
  case (MouseMove x y)
  then show ?thesis using assms(1) by (simp add: handleMouseMove_moveTo inBounds_moveTo)
next
  case MouseUp
  then show ?thesis using assms(1) by (simp add: inBounds_handleMouseUp)
next
  case (TouchStart ts c rl rt)
  then show ?thesis using assms(1)
    by (simp add: handleTouchStart_def inBounds_def roomy_def split: list.splits)
next
  case (TouchMove ts)
  then show ?thesis using assms(1)
    by (simp add: handleTouchMove_moveTo inBounds_moveTo split: list.splits)
next
  case (TouchEnd ts)
  then show ?thesis using assms(1) by (simp add: handleTouchEnd_def inBounds_handleMouseUp)
next
  case (Resize w h)
  then show ?thesis using assms inBounds_handleResize [of w h s] by (simp add: inBounds_def)
next
  case KeyCtrlM
  then show ?thesis using assms
    by (auto simp: inBounds_def roomy_def elementHeight_def)
next
  case ClickMinimize
  then show ?thesis using assms
    by (auto simp: inBounds_def roomy_def elementHeight_def split: if_splits)
next
  case ClickExpand
  then show ?thesis using assms by (auto simp: inBounds_def roomy_def elementHeight_def)
next
  case (SetShowLargePreview b)
  then show ?thesis using assms(1) by (simp add: inBounds_def roomy_def)
qed

lemma inBounds_run:
  "inBounds s \<and> roomy s \<Longrightarrow> admissibleRun s evs \<Longrightarrow> inBounds (run s evs) \<and> roomy (run s evs)"
  by (induction evs arbitrary: s)
     (simp_all add: run_Nil run_Cons step_def inBounds_render inBounds_dispatch)

text \<open>
  C1 (as amended). Starting in a window of at least 340 by 200, as long as every resize
  leaves the window at least 340 by 200 and the size mode changes from minimized to normal
  only where the position fits the normal height, the committed position lies within the
  bounds in every state reached, and every position update made from such a state commits
  a position within the bounds.
\<close>

theorem position_within_bounds:
  assumes "340 \<le> w" and "200 \<le> h" and "admissibleRun (initial w h) evs"
  shows "inBounds (run (initial w h) evs)
       \<and> (\<forall>x y. inBounds (updatePosition x y (run (initial w h) evs)))"
proof -
  have "inBounds (initial w h) \<and> roomy (initial w h)"
    using assms(1,2) by (simp add: inBounds_def roomy_def initial_def elementWidth_def elementHeight_def)
  then have "inBounds (run (initial w h) evs) \<and> roomy (run (initial w h) evs)"
    using assms(3) by (rule inBounds_run)
  then show ?thesis by (simp add: inBounds_updatePosition)
qed

theorem position_within_bounds_witness:
  "(340::real) \<le> 1000 \<and> (200::real) \<le> 800
   \<and> admissibleRun (initial 1000 800)
        [MouseDown 0 False 100 100 20 20, MouseMove 900 700, MouseUp, Resize 800 600, KeyCtrlM]
   \<and> thumbnailPosition (run (initial 1000 800)
        [MouseDown 0 False 100 100 20 20, MouseMove 900 700, MouseUp, Resize 800 600, KeyCtrlM])
      = (480, 420)
   \<and> inBounds (run (initial 1000 800)
        [MouseDown 0 False 100 100 20 20, MouseMove 900 700, MouseUp, Resize 800 600, KeyCtrlM])"
proof -
  have h1: "(340::real) \<le> 1000" and h2: "(200::real) \<le> 800" by simp_all
  have h3: "admissibleRun (initial 1000 800)
        [MouseDown 0 False 100 100 20 20, MouseMove 900 700, MouseUp, Resize 800 600, KeyCtrlM]"
    by (simp add: eval_defs)
  from position_within_bounds [OF h1 h2 h3] h3 show ?thesis
    by (simp add: eval_defs)
qed

text \<open>
  C1 as stated fails. In a window of 300 by 150 the initial position (20, 20) is outside
  the (empty) bounds. In a window of 1000 by 800, after Ctrl+M, a drag to the bottom-left
  corner and a release, the position (10, 730) is within the bounds of the minimized size;
  after Ctrl+M again it is outside the bounds of the normal size.
\<close>

theorem position_within_bounds_counterexample:
  "\<not> inBounds (initial 300 150)
   \<and> inBounds (run (initial 1000 800)
        [KeyCtrlM, MouseDown 0 False 100 50 20 20, MouseMove 100 790, MouseUp])
   \<and> \<not> inBounds (run (initial 1000 800)
        [KeyCtrlM, MouseDown 0 False 100 50 20 20, MouseMove 100 790, MouseUp, KeyCtrlM])"
  by (simp add: eval_defs inBounds_def)


section \<open>Start of a drag\<close>

lemma quietGrowth_refl: "quietGrowth (outputs s) s"
  by (simp add: quietGrowth_def)

lemma quietGrowth_append:
  assumes "quietGrowth base s" and "outputs s' = outputs s @ added"
    and "\<forall>out \<in> set added. isPositionChange out \<or> out = SetIsDragging False"
  shows "quietGrowth base s'"
proof -
  from assms(1) obtain extra where e: "outputs s = base @ extra"
    "\<forall>out \<in> set extra. isPositionChange out \<or> out = SetIsDragging False"
    by (auto simp: quietGrowth_def)
  have "outputs s' = base @ (extra @ added)" using e(1) assms(2) by simp
  moreover have "\<forall>out \<in> set (extra @ added). isPositionChange out \<or> out = SetIsDragging False"
    using e(2) assms(3) by auto
  ultimately show ?thesis unfolding quietGrowth_def by blast
qed

lemma quietGrowth_render: "quietGrowth base s \<Longrightarrow> quietGrowth base (render prev s)"
proof (rule render_preserves)
  fix t :: System
  assume t: "quietGrowth base t"
  show "quietGrowth base (listenersCleanup t)"
    by (rule quietGrowth_append [OF t, where added = "[]"]) (simp_all add: listenersCleanup_def)
  show "quietGrowth base (disabledEffect t)"
    by (rule quietGrowth_append [OF t, where added =
          "if disabled t \<and> isDragging (dragData t) then [SetIsDragging False] else []"])
       (simp_all add: disabledEffect_def Let_def)
  show "quietGrowth base (positionEffect t)"
    by (rule quietGrowth_append [OF t, where added = "drop (length (outputs t)) (outputs (positionEffect t))"])
       (simp_all add: positionEffect_def updatePosition_def Let_def)
  show "quietGrowth base (modalCloseEffect t)"
    by (rule quietGrowth_append [OF t, where added = "[]"]) (simp_all add: modalCloseEffect_def)
qed

lemma step_move_dragging:
  assumes "isDragging (dragData s)" and "startX (dragData s) \<noteq> 0" and "\<not> disabled s"
  shows "step s (MouseMove x y)
           = updatePosition (startLeft (dragData s) + (x - startX (dragData s)))
                            (startTop (dragData s) + (y - startY (dragData s))) s"
proof -
  let ?u = "updatePosition (startLeft (dragData s) + (x - startX (dragData s)))
                            (startTop (dragData s) + (y - startY (dragData s))) s"
  have d: "dispatch (MouseMove x y) s = ?u"
    using assms by (simp add: handleMouseMove_moveTo moveTo_def Let_def)
  have u: "isDragging (dragData ?u)" "\<not> disabled ?u" "showLargePreview ?u = showLargePreview s"
    "isMinimized ?u = isMinimized s"
    using assms by (simp_all add: updatePosition_def Let_def disabled_def)
  have "effects s ?u = ?u"
    using u by (simp add: effects_def disabledEffect_def positionEffect_def Let_def)
  then have "render s ?u = ?u" by (simp add: render_def effects_same)
  then show ?thesis unfolding step_def d .
qed

lemma run_moves_dragging:
  assumes "isDragging (dragData s)" and "startX (dragData s) \<noteq> 0" and "\<not> disabled s"
  shows "isDragging (dragData (run s (mouseMoves ps)))
       \<and> \<not> disabled (run s (mouseMoves ps))
       \<and> hasMoved (dragData (run s (mouseMoves ps))) = hasMoved (dragData s)
       \<and> (\<exists>ups. outputs (run s (mouseMoves ps)) = outputs s @ ups
             \<and> (\<forall>out \<in> set ups. isPositionChange out))"
  using assms
proof (induction ps arbitrary: s)
  case Nil
  then show ?case by (simp add: mouseMoves_def run_Nil)
next
  case (Cons p ps)
  let ?u = "step s (MouseMove (fst p) (snd p))"
  have u: "?u = updatePosition (startLeft (dragData s) + (fst p - startX (dragData s)))
                            (startTop (dragData s) + (snd p - startY (dragData s))) s"
    using Cons.prems by (rule step_move_dragging)
  have u': "isDragging (dragData ?u)" "startX (dragData ?u) \<noteq> 0" "\<not> disabled ?u"
    "hasMoved (dragData ?u) = hasMoved (dragData s)"
    using Cons.prems by (simp_all add: u updatePosition_def Let_def disabled_def)
  obtain bx "by" where out: "outputs ?u = outputs s @ [PositionChange bx by]"
    by (simp add: u updatePosition_def Let_def)
  from Cons.IH [OF u'(1-3)] obtain ups where
    ih: "isDragging (dragData (run ?u (mouseMoves ps)))" "\<not> disabled (run ?u (mouseMoves ps))"
      "hasMoved (dragData (run ?u (mouseMoves ps))) = hasMoved (dragData ?u)"
      "outputs (run ?u (mouseMoves ps)) = outputs ?u @ ups" "\<forall>out \<in> set ups. isPositionChange out"
    by blast
  have r: "run s (mouseMoves (p # ps)) = run ?u (mouseMoves ps)"
    by (simp add: mouseMoves_def run_Cons)
  have "outputs (run s (mouseMoves (p # ps))) = outputs s @ (PositionChange bx by # ups)"
    using ih(4) out by (simp add: r)
  moreover have "\<forall>out \<in> set (PositionChange bx by # ups). isPositionChange out"
    using ih(5) by simp
  ultimately have "\<exists>ups'. outputs (run s (mouseMoves (p # ps))) = outputs s @ ups'
             \<and> (\<forall>out \<in> set ups'. isPositionChange out)"
    by blast
  then show ?case using ih(1-3) u'(4) by (simp add: r)
qed
lemma step_move_crossing:
  assumes "\<not> isDragging (dragData s)" and "startX (dragData s) \<noteq> 0" and "\<not> disabled s"
    and "5 < distanceBetween (startX (dragData s), startY (dragData s)) (x, y)"
  shows "step s (MouseMove x y)
           = updatePosition (startLeft (dragData s) + (x - startX (dragData s)))
                            (startTop (dragData s) + (y - startY (dragData s)))
                            (startDragging True s)"
proof -
  let ?u = "updatePosition (startLeft (dragData s) + (x - startX (dragData s)))
                            (startTop (dragData s) + (y - startY (dragData s)))
                            (startDragging True s)"
  have d: "dispatch (MouseMove x y) s = ?u"
    using assms by (simp add: handleMouseMove_moveTo moveTo_def Let_def distanceBetween_def
        startDragging_def)
  have u: "isDragging (dragData ?u)" "\<not> disabled ?u" "showLargePreview ?u = showLargePreview s"
    "isMinimized ?u = isMinimized s"
    using assms by (simp_all add: updatePosition_def startDragging_def Let_def disabled_def)
  have "effects s ?u = ?u"
    using u by (simp add: effects_def disabledEffect_def positionEffect_def Let_def)
  then have "render s ?u = ?u" by (simp add: render_def effects_same)
  then show ?thesis unfolding step_def d .
qed

lemma release_dragging_outputs:
  assumes "isDragging (dragData s)" and "\<not> disabled s"
  shows "\<exists>rel. outputs (step s MouseUp) = outputs s @ rel
           \<and> DragStart \<notin> set rel \<and> SetIsDragging True \<notin> set rel
           \<and> MouseUpCb True (hasMoved (dragData s)) \<in> set rel"
proof -
  let ?h = "handleMouseUp s"
  obtain mid where mid: "outputs ?h = outputs s @ mid" "DragStart \<notin> set mid"
    "SetIsDragging True \<notin> set mid" "MouseUpCb True (hasMoved (dragData s)) \<in> set mid"
  proof (cases "findSnapTarget (currentX (dragData s)) (currentY (dragData s))
           (corners (innerWidth s) (innerHeight s) (isMinimized s))")
    case None
    show ?thesis
      by (rule that [of "[SetIsDragging False, MouseUpCb True (hasMoved (dragData s)), DragEnd]"])
         (simp_all add: handleMouseUp_no_snap [OF assms None])
  next
    case (Some c)
    show ?thesis
      by (rule that [of "[SetIsDragging False,
            PositionChange (boundedX (corner_x c) (innerWidth s))
                           (boundedY (isMinimized s) (corner_y c) (innerHeight s)),
            SnapToCorner c, MouseUpCb True (hasMoved (dragData s)), DragEnd]"])
         (simp_all add: handleMouseUp_snap [OF assms Some])
  qed
  have "quietGrowth (outputs ?h) (render s ?h)"
    by (rule quietGrowth_render) (rule quietGrowth_refl)
  then obtain extra where extra: "outputs (render s ?h) = outputs ?h @ extra"
    "\<forall>out \<in> set extra. isPositionChange out \<or> out = SetIsDragging False"
    by (auto simp: quietGrowth_def)
  have "outputs (step s MouseUp) = outputs s @ (mid @ extra)"
    using assms(2) mid(1) extra(1) by (simp add: step_def)
  moreover have "DragStart \<notin> set (mid @ extra)" "SetIsDragging True \<notin> set (mid @ extra)"
    "MouseUpCb True (hasMoved (dragData s)) \<in> set (mid @ extra)"
    using mid(2-4) extra(2) by auto
  ultimately show ?thesis by blast
qed

lemma drag_starts_once:
  assumes "\<not> disabled s" and "x0 \<noteq> 0" and "\<exists>p \<in> set ps. 5 < distanceBetween (x0, y0) p"
  shows "\<exists>bx by ups.
           outputs (run s (MouseDown 0 False x0 y0 rl rt # mouseMoves ps @ [MouseUp]))
             = outputs s @ [MouseDownCb x0 y0, SetIsDragging True, DragStart, PositionChange bx by] @ ups
           \<and> DragStart \<notin> set ups \<and> SetIsDragging True \<notin> set ups
           \<and> MouseUpCb True True \<in> set ups"
proof -
  from assms(3) obtain before p after where split: "ps = before @ p # after"
    "5 < distanceBetween (x0, y0) p" "\<forall>q \<in> set before. \<not> 5 < distanceBetween (x0, y0) q"
    using split_list_first_prop [of ps "\<lambda>p. 5 < distanceBetween (x0, y0) p"] by blast
  define m where "m = step s (MouseDown 0 False x0 y0 rl rt)"
  have m: "\<not> isDragging (dragData m)" "\<not> disabled m" "startX (dragData m) = x0"
    "startY (dragData m) = y0" "outputs m = outputs s @ [MouseDownCb x0 y0]"
    using assms(1) by (simp_all add: m_def step_press disabled_def)
  have quiet: "run m (mouseMoves before) = m"
    using m split(3) by (intro run_moves_below_threshold) (simp_all add: not_less)
  define d where "d = step m (MouseMove (fst p) (snd p))"
  have d_eq: "d = updatePosition (startLeft (dragData m) + (fst p - x0))
                                 (startTop (dragData m) + (snd p - y0)) (startDragging True m)"
    unfolding d_def using step_move_crossing [of m "fst p" "snd p"] m assms(2) split(2) by simp
  obtain bx "by" where d_out:
    "outputs d = outputs s @ [MouseDownCb x0 y0, SetIsDragging True, DragStart, PositionChange bx by]"
    by (simp add: d_eq updatePosition_def startDragging_def Let_def m(5))
  have dd: "isDragging (dragData d)" "startX (dragData d) \<noteq> 0" "\<not> disabled d"
    "hasMoved (dragData d)"
    using m assms(2) by (simp_all add: d_eq updatePosition_def startDragging_def Let_def disabled_def)
  define e where "e = run d (mouseMoves after)"
  from run_moves_dragging [OF dd(1-3), of after] obtain ups where
    e: "isDragging (dragData e)" "\<not> disabled e" "hasMoved (dragData e)"
      "outputs e = outputs d @ ups" "\<forall>out \<in> set ups. isPositionChange out"
    unfolding e_def using dd(4) by auto
  from release_dragging_outputs [OF e(1,2)] obtain rel where
    rel: "outputs (step e MouseUp) = outputs e @ rel" "DragStart \<notin> set rel"
      "SetIsDragging True \<notin> set rel" "MouseUpCb True True \<in> set rel"
    using e(3) by auto
  have whole: "run s (MouseDown 0 False x0 y0 rl rt # mouseMoves ps @ [MouseUp]) = step e MouseUp"
    by (simp add: split(1) mouseMoves_def run_Cons run_append run_Nil m_def [symmetric]
        quiet [unfolded mouseMoves_def] d_def [symmetric] e_def [unfolded mouseMoves_def, symmetric])
  have "outputs (step e MouseUp)
          = outputs s @ [MouseDownCb x0 y0, SetIsDragging True, DragStart, PositionChange bx by]
              @ (ups @ rel)"
    by (simp add: rel(1) e(4) d_out)
  moreover have "DragStart \<notin> set (ups @ rel)" "SetIsDragging True \<notin> set (ups @ rel)"
    "MouseUpCb True True \<in> set (ups @ rel)"
    using e(5) rel(2-4) by auto
  ultimately show ?thesis unfolding whole by blast
qed

lemma left_edge_press_ignores_moves:
  assumes "\<not> disabled s"
  shows "outputs (run s (MouseDown 0 False 0 y0 rl rt # mouseMoves ps @ [MouseUp]))
           = outputs s @ [MouseDownCb 0 y0, SetIsDragging False, MouseUpCb False False, DragEnd]"
proof -
  define m where "m = step s (MouseDown 0 False 0 y0 rl rt)"
  have m: "\<not> isDragging (dragData m)" "\<not> disabled m" "startX (dragData m) = 0"
    "\<not> hasMoved (dragData m)" "outputs m = outputs s @ [MouseDownCb 0 y0]"
    using assms by (simp_all add: m_def step_press disabled_def)
  have "step m (MouseMove x y) = m" for x y
    using m(3) by (simp add: step_def handleMouseMove_moveTo render_same)
  then have "run m (mouseMoves ps) = m"
    by (induction ps) (simp_all add: mouseMoves_def run_Nil run_Cons)
  then show ?thesis
    using m by (simp add: run_Cons run_append run_Nil m_def [symmetric] step_release_not_dragging)
qed

text \<open>
  C4 fails for a press at \<open>clientX = 0\<close>. After a drag that leaves the element at the left
  edge of the window, a press at (0, 300) followed by a move to (200, 300), at distance 200
  from the press, and a release: the move is dropped by the guard \<open>!startX\<close>, no drag start
  and no position update are made, and the release callback has \<open>wasActuallyDragging\<close>
  false. Lemma \<open>drag_starts_once\<close> above shows that the property holds when \<open>clientX\<close> is not
  0.
\<close>

theorem press_at_left_edge_never_drags:
  "outputs (run (initial 1000 800)
      [MouseDown 0 False 100 100 20 20, MouseMove 50 300, MouseUp,
       MouseDown 0 False 0 300 0 220, MouseMove 200 300, MouseUp])
     = [MouseDownCb 100 100, SetIsDragging True, DragStart, PositionChange 0 220,
        SetIsDragging False, MouseUpCb True True, DragEnd,
        MouseDownCb 0 300, SetIsDragging False, MouseUpCb False False, DragEnd]
   \<and> thumbnailPosition (run (initial 1000 800)
      [MouseDown 0 False 100 100 20 20, MouseMove 50 300, MouseUp,
       MouseDown 0 False 0 300 0 220, MouseMove 200 300, MouseUp]) = (0, 220)
   \<and> 5 < distanceBetween (0, 300) (200, 300)"
  by (simp add: eval_defs distanceBetween_def)


section \<open>Touch and extra contacts\<close>

lemma multi_touch_start_move_ignored:
  "length touches \<noteq> 1 \<Longrightarrow> step s (TouchStart touches onControl rl rt) = s"
  "length touches \<noteq> 1 \<Longrightarrow> step s (TouchMove touches) = s"
  by (simp_all add: step_def handleTouchStart_def handleTouchMove_moveTo render_same)

text \<open>
  C9 fails for the end of an extra contact. A finger drags the element to (120, 120); a
  second finger touches the element (ignored) and lifts again: \<open>handleTouchEnd\<close> releases the
  gesture of the first finger, with a release callback, and the next move of the first
  finger is dropped. Without the second finger the same move brings the element to
  (220, 220).
\<close>

theorem touch_end_of_extra_contact_ends_gesture:
  "outputs (run (initial 1000 800)
      [TouchStart [(100, 100)] False 20 20, TouchMove [(200, 200)],
       TouchStart [(200, 200), (400, 250)] False 120 120, TouchEnd [(200, 200)],
       TouchMove [(300, 300)]])
     = [MouseDownCb 100 100, SetIsDragging True, DragStart, PositionChange 120 120,
        SetIsDragging False, MouseUpCb True True, DragEnd]
   \<and> thumbnailPosition (run (initial 1000 800)
      [TouchStart [(100, 100)] False 20 20, TouchMove [(200, 200)],
       TouchStart [(200, 200), (400, 250)] False 120 120, TouchEnd [(200, 200)],
       TouchMove [(300, 300)]]) = (120, 120)
   \<and> outputs (run (initial 1000 800)
      [TouchStart [(100, 100)] False 20 20, TouchMove [(200, 200)], TouchMove [(300, 300)]])
     = [MouseDownCb 100 100, SetIsDragging True, DragStart, PositionChange 120 120,
        PositionChange 220 220]
   \<and> thumbnailPosition (run (initial 1000 800)
      [TouchStart [(100, 100)] False 20 20, TouchMove [(200, 200)], TouchMove [(300, 300)]])
     = (220, 220)"
  by (simp add: eval_defs)


end
